theory Spec2Isabelle
  imports Complex_Main "HOL-Library.Char_ord" "HOL-Library.List_Lexorder"
begin

section \<open>Data model of VersionDownloadChart.tsx\<close>

text \<open>
  The file \<^verbatim>\<open>src/VersionDownloadChart.tsx\<close> prepares download history for a stacked
  area chart. Its data functions are \<^verbatim>\<open>filterTopN\<close>, \<^verbatim>\<open>transformToPercentage\<close>,
  \<^verbatim>\<open>calculateDateTicks\<close>, \<^verbatim>\<open>fromDayStart\<close> and the loop of the component that builds
  the chart rows (\<^verbatim>\<open>data\<close>).

  Conventions of the embedding.
  \<^item> A timestamp (\<^verbatim>\<open>date: number\<close>, milliseconds since the epoch) is an \<open>int\<close>.
  \<^item> A count read from the input is a finite number, modelled exactly as a \<open>rat\<close>:
    rounding and overflow of IEEE doubles are not modelled. The quotient computed by
    \<^verbatim>\<open>transformToPercentage\<close> may leave the finite numbers, so its result type is
    \<open>number\<close>, which has the three non-finite values of a JavaScript number.
  \<^item> \<^verbatim>\<open>new Date(t).setHours(0, 0, 0, 0)\<close> is the start of the local day of \<open>t\<close>. It
    depends on the time zone of the runtime, so every function that uses it takes it as
    its first argument (\<open>dayStart\<close>); \<open>utcDayStart\<close> is the instance of a runtime in UTC.
  \<^item> Where the source reads \<^verbatim>\<open>dates[0]\<close> of an empty array the value is \<^verbatim>\<open>undefined\<close>;
    the ticks therefore have the type \<open>tick\<close>.
  \<^item> A loop that may not end yields \<open>None\<close>.
\<close>

record 'n HistoryPoint =
  date :: int
  version :: string
  count :: 'n

datatype number = Finite rat | PosInfinity | NegInfinity | NaN

text \<open>The division of two finite numbers, as \<^verbatim>\<open>/\<close> computes it.\<close>

definition divide_number :: "rat \<Rightarrow> rat \<Rightarrow> number" where
  "divide_number a b =
     (if b \<noteq> 0 then Finite (a / b)
      else if a = 0 then NaN
      else if 0 < a then PosInfinity
      else NegInfinity)"

type_synonym dayStartFn = "int \<Rightarrow> int"

definition dayDuration :: int where
  "dayDuration = 24 * 60 * 60 * 1000"

definition weekDuration :: int where
  "weekDuration = 7 * dayDuration"

definition utcDayStart :: dayStartFn where
  "utcDayStart t = t - t mod dayDuration"

text \<open>
  A \<^verbatim>\<open>Set\<close> keeps its members in insertion order, and adding a member it already has
  changes nothing.
\<close>

definition set_add :: "'a list \<Rightarrow> 'a \<Rightarrow> 'a list" where
  "set_add s x = (if x \<in> set s then s else s @ [x])"

section \<open>transformToPercentage\<close>

text \<open>
  \<^verbatim>\<open>
  const totalCountByDate: Record<number, number | undefined> = {};
  for (const point of points) {
    const prevTotal = totalCountByDate[point.date] ?? 0;
    totalCountByDate[point.date] = prevTotal + point.count;
  }
  return points.map((point) => ({
    ...point,
    count: point.count / totalCountByDate[point.date]!,
  }));
  \<close>
  The function reads \<^verbatim>\<open>points\<close> and writes only to its local object and to the fresh
  objects of the result.
\<close>

definition addToTotal :: "(int \<rightharpoonup> rat) \<Rightarrow> rat HistoryPoint \<Rightarrow> (int \<rightharpoonup> rat)" where
  "addToTotal totals point =
     (let prevTotal = (case totals (date point) of None \<Rightarrow> 0 | Some t \<Rightarrow> t)
      in totals(date point \<mapsto> prevTotal + count point))"

definition totalCountByDate :: "rat HistoryPoint list \<Rightarrow> (int \<rightharpoonup> rat)" where
  "totalCountByDate points = foldl addToTotal Map.empty points"

definition percentagePoint :: "(int \<rightharpoonup> rat) \<Rightarrow> rat HistoryPoint \<Rightarrow> number HistoryPoint" where
  "percentagePoint totals point =
     \<lparr>date = date point, version = version point,
      count = (case totals (date point) of
                 None \<Rightarrow> NaN
               | Some totalForDate \<Rightarrow> divide_number (count point) totalForDate)\<rparr>"

definition transformToPercentage :: "rat HistoryPoint list \<Rightarrow> number HistoryPoint list" where
  "transformToPercentage points = map (percentagePoint (totalCountByDate points)) points"

text \<open>The sum of the counts of the points of one date, as the specification words it.\<close>

definition dateTotal :: "rat HistoryPoint list \<Rightarrow> int \<Rightarrow> rat" where
  "dateTotal points d = sum_list (map count (filter (\<lambda>p. date p = d) points))"

section \<open>transformToPercentage on a store\<close>

text \<open>
  The same function on a store, where an assignment to the argument could be written
  down. Objects and arrays live in cells; an address is the index of a cell, an array holds
  the addresses of its elements, and a new object or array takes the next free address.
  The cells are the point objects of the input, the objects of the result, arrays, and the
  object \<^verbatim>\<open>totalCountByDate\<close>.
\<close>

type_synonym addr = nat

datatype cell =
    PointCell "rat HistoryPoint"
  | PercentCell "number HistoryPoint"
  | ArrayCell "addr list"
  | TotalsCell "int \<rightharpoonup> rat"

type_synonym store = "cell list"

definition readCell :: "store \<Rightarrow> addr \<Rightarrow> cell option" where
  "readCell h a = (if a < length h then Some (h ! a) else None)"

definition alloc :: "store \<Rightarrow> cell \<Rightarrow> addr \<times> store" where
  "alloc h c = (length h, h @ [c])"

text \<open>
  \<^verbatim>\<open>points[k]\<close>, read from the current store. The type \<^verbatim>\<open>HistoryPoint[]\<close> admits only an
  array of point objects; on anything else the model stops with \<open>None\<close>.
\<close>

definition getPoint :: "store \<Rightarrow> addr \<Rightarrow> nat \<Rightarrow> rat HistoryPoint option" where
  "getPoint h points k =
     (case readCell h points of
        Some (ArrayCell refs) \<Rightarrow>
          (if k < length refs
           then (case readCell h (refs ! k) of Some (PointCell point) \<Rightarrow> Some point | _ \<Rightarrow> None)
           else None)
      | _ \<Rightarrow> None)"

text \<open>
  One turn of \<^verbatim>\<open>for (const point of points)\<close>: the body reads \<^verbatim>\<open>point.date\<close> and
  \<^verbatim>\<open>point.count\<close> and assigns to a property of \<^verbatim>\<open>totalCountByDate\<close>.
\<close>

definition totalStep :: "addr \<Rightarrow> addr \<Rightarrow> store option \<Rightarrow> nat \<Rightarrow> store option" where
  "totalStep points totals st k =
     (case st of
        None \<Rightarrow> None
      | Some h \<Rightarrow>
          (case getPoint h points k of
             None \<Rightarrow> None
           | Some point \<Rightarrow>
               (case readCell h totals of
                  Some (TotalsCell m) \<Rightarrow> Some (h[totals := TotalsCell (addToTotal m point)])
                | _ \<Rightarrow> None)))"

text \<open>
  One turn of \<^verbatim>\<open>points.map\<close>: the callback builds the object
  \<^verbatim>\<open>{...point, count: point.count / totalCountByDate[point.date]!}\<close>, a new cell, and
  \<^verbatim>\<open>map\<close> stores its address in the array of the result.
\<close>

definition mapStep :: "addr \<Rightarrow> addr \<Rightarrow> addr \<Rightarrow> store option \<Rightarrow> nat \<Rightarrow> store option" where
  "mapStep points totals result st k =
     (case st of
        None \<Rightarrow> None
      | Some h \<Rightarrow>
          (case getPoint h points k of
             None \<Rightarrow> None
           | Some point \<Rightarrow>
               (case readCell h totals of
                  Some (TotalsCell m) \<Rightarrow>
                    (let (obj, h1) = alloc h (PercentCell (percentagePoint m point))
                     in (case readCell h1 result of
                           Some (ArrayCell outs) \<Rightarrow> Some (h1[result := ArrayCell (outs @ [obj])])
                         | _ \<Rightarrow> None))
                | _ \<Rightarrow> None)))"

text \<open>
  The call: \<^verbatim>\<open>totalCountByDate = {}\<close> is a new cell, the first loop visits the indices of
  \<^verbatim>\<open>points\<close>, \<^verbatim>\<open>map\<close> creates the array of the result and visits the indices again. The
  value is the address of the result and the store the call leaves.
\<close>

definition transformToPercentage_call :: "store \<Rightarrow> addr \<Rightarrow> (addr \<times> store) option" where
  "transformToPercentage_call h points =
     (case readCell h points of
        Some (ArrayCell refs) \<Rightarrow>
          (let (totals, h1) = alloc h (TotalsCell Map.empty)
           in (case foldl (totalStep points totals) (Some h1) [0..<length refs] of
                 None \<Rightarrow> None
               | Some h2 \<Rightarrow>
                   (let (result, h3) = alloc h2 (ArrayCell [])
                    in (case foldl (mapStep points totals result) (Some h3) [0..<length refs] of
                          None \<Rightarrow> None
                        | Some h4 \<Rightarrow> Some (result, h4)))))
      | _ \<Rightarrow> None)"

text \<open>
  The store holds at \<open>points\<close> an array of the addresses \<open>refs\<close>, and these are the
  addresses of point objects with the values \<open>pts\<close>.
\<close>

definition holdsPoints :: "store \<Rightarrow> addr \<Rightarrow> addr list \<Rightarrow> rat HistoryPoint list \<Rightarrow> bool" where
  "holdsPoints h points refs pts \<longleftrightarrow>
     readCell h points = Some (ArrayCell refs) \<and>
     map (readCell h) refs = map (\<lambda>p. Some (PointCell p)) pts"

section \<open>calculateDateTicks and fromDayStart\<close>

datatype tick = Undefined | Timestamp int

definition fromDayStart :: "dayStartFn \<Rightarrow> int \<Rightarrow> int \<Rightarrow> int" where
  "fromDayStart dayStart d duration = dayStart d + duration"

text \<open>
  \<^verbatim>\<open>
  let tickInterval = weekDuration;
  while (Math.floor(dataDuration / tickInterval) > maxInteriorTicks) {
    tickInterval *= 2;
  }
  \<close>
  The loop need not end; \<open>None\<close> is the run that never leaves it.
\<close>

partial_function (option) searchTickInterval :: "int \<Rightarrow> int \<Rightarrow> int \<Rightarrow> int option" where
  "searchTickInterval dataDuration maxInteriorTicks tickInterval =
     (if dataDuration div tickInterval > maxInteriorTicks
      then searchTickInterval dataDuration maxInteriorTicks (tickInterval * 2)
      else Some tickInterval)"

text \<open>
  \<^verbatim>\<open>
  for (const date of dates) {
    if (date >= nextTick) {
      ticks.add(date);
      nextTick = fromDayStart(date, tickInterval);
    }
  }
  \<close>
  The state of the loop is the set of ticks and the next boundary.
\<close>

definition tickStep :: "dayStartFn \<Rightarrow> int \<Rightarrow> int list \<times> int \<Rightarrow> int \<Rightarrow> int list \<times> int" where
  "tickStep dayStart tickInterval st d =
     (if d \<ge> snd st
      then (set_add (fst st) d, fromDayStart dayStart d tickInterval)
      else st)"

definition scanTicks :: "dayStartFn \<Rightarrow> int \<Rightarrow> int \<Rightarrow> int list \<Rightarrow> int list" where
  "scanTicks dayStart tickInterval first dates =
     fst (foldl (tickStep dayStart tickInterval)
            ([first], fromDayStart dayStart first tickInterval) dates)"

text \<open>
  \<^verbatim>\<open>dates[0]\<close> and \<^verbatim>\<open>dates[dates.length - 1]\<close>: \<^verbatim>\<open>undefined\<close> when the array is empty.
\<close>

definition firstDate :: "int list \<Rightarrow> tick" where
  "firstDate dates = (case dates of [] \<Rightarrow> Undefined | d # _ \<Rightarrow> Timestamp d)"

definition lastDate :: "int list \<Rightarrow> tick" where
  "lastDate dates = (case dates of [] \<Rightarrow> Undefined | _ # _ \<Rightarrow> Timestamp (last dates))"

text \<open>
  The three early returns come first, as in the source. After them, with an empty array,
  \<^verbatim>\<open>dataDuration\<close> is \<^verbatim>\<open>undefined - undefined\<close>, which is \<^verbatim>\<open>NaN\<close>: the comparison of the
  \<^verbatim>\<open>while\<close> is false, the \<^verbatim>\<open>for\<close> has nothing to visit and the result is the set
  that holds \<^verbatim>\<open>undefined\<close>.
\<close>

definition calculateDateTicks :: "dayStartFn \<Rightarrow> int list \<Rightarrow> int \<Rightarrow> tick list option" where
  "calculateDateTicks dayStart dates maxTicks =
     (if maxTicks = 0 then Some []
      else if maxTicks = 1 then Some [firstDate dates]
      else if maxTicks = 2 then Some [firstDate dates, lastDate dates]
      else (case dates of
              [] \<Rightarrow> Some [Undefined]
            | first # _ \<Rightarrow>
                (case searchTickInterval (last dates - first) (maxTicks - 1) weekDuration of
                   None \<Rightarrow> None
                 | Some tickInterval \<Rightarrow>
                     Some (map Timestamp (scanTicks dayStart tickInterval first dates)))))"

section \<open>filterTopN\<close>

text \<open>
  \<^verbatim>\<open>Array.prototype.slice(start)\<close> with one argument: a negative start counts from the
  end, and both ends are clamped. \<^verbatim>\<open>slice(-0)\<close> is \<^verbatim>\<open>slice(0)\<close>.
\<close>

definition slice_from :: "int \<Rightarrow> 'a list \<Rightarrow> 'a list" where
  "slice_from start xs =
     (let len = int (length xs);
          k = (if start < 0 then max (len + start) 0 else min start len)
      in drop (nat k) xs)"

text \<open>
  \<^verbatim>\<open>Array.prototype.sort()\<close> without a comparator orders the elements by their string
  forms, compared code unit by code unit. The string form of an integer below \<open>10\<^sup>2\<^sup>1\<close> in
  absolute value is its decimal numeral.
\<close>

fun natToString :: "nat \<Rightarrow> string" where
  "natToString n =
     (if n < 10 then [''0123456789'' ! n]
      else natToString (n div 10) @ [''0123456789'' ! (n mod 10)])"

declare natToString.simps [simp del]

definition numberToString :: "int \<Rightarrow> string" where
  "numberToString i = (if i < 0 then CHR ''-'' # natToString (nat (- i)) else natToString (nat i))"

definition defaultSort :: "int list \<Rightarrow> int list" where
  "defaultSort xs = sort_key numberToString xs"

text \<open>
  \<^verbatim>\<open>
  const existingCount = versionsInWindow.find((v) => v.version === point.version);
  const newCount = point.date < earliestAllowableDate ? 0 : point.count;
  if (existingCount) { existingCount.count += newCount; }
  else { versionsInWindow.push({ version: point.version, count: newCount }); }
  \<close>
  An entry \<^verbatim>\<open>{version, count}\<close> is a pair.
\<close>

fun addVersionCount :: "(string \<times> rat) list \<Rightarrow> string \<Rightarrow> rat \<Rightarrow> (string \<times> rat) list" where
  "addVersionCount [] v c = [(v, c)]"
| "addVersionCount ((v', t) # rest) v c =
     (if v' = v then (v', t + c) # rest else (v', t) # addVersionCount rest v c)"

definition windowStep :: "int \<Rightarrow> (string \<times> rat) list \<Rightarrow> rat HistoryPoint \<Rightarrow> (string \<times> rat) list" where
  "windowStep earliestAllowableDate versionsInWindow point =
     (if date point \<ge> earliestAllowableDate
      then addVersionCount versionsInWindow (version point)
             (if date point < earliestAllowableDate then 0 else count point)
      else versionsInWindow)"

definition versionsInWindow :: "int \<Rightarrow> rat HistoryPoint list \<Rightarrow> (string \<times> rat) list" where
  "versionsInWindow earliestAllowableDate historyPoints =
     foldl (windowStep earliestAllowableDate) [] historyPoints"

text \<open>
  \<^verbatim>\<open>versionsInWindow.sort((a, b) => a.count - b.count).slice(-n).map((v) => v.version)\<close>;
  the sort of an array is stable.
\<close>

definition topVersions :: "int \<Rightarrow> rat HistoryPoint list \<Rightarrow> int \<Rightarrow> string list" where
  "topVersions earliestAllowableDate historyPoints n =
     map fst (slice_from (- n) (sort_key snd (versionsInWindow earliestAllowableDate historyPoints)))"

definition orderStep :: "string list \<Rightarrow> string list \<Rightarrow> rat HistoryPoint \<Rightarrow> string list" where
  "orderStep topVs acc point =
     (if version point \<in> set topVs \<and> version point \<notin> set acc then acc @ [version point] else acc)"

definition topVersionsInOrder :: "string list \<Rightarrow> rat HistoryPoint list \<Rightarrow> string list" where
  "topVersionsInOrder topVs historyPoints = foldl (orderStep topVs) [] historyPoints"

definition filteredPoints :: "string list \<Rightarrow> rat HistoryPoint list \<Rightarrow> rat HistoryPoint list" where
  "filteredPoints topVs historyPoints = filter (\<lambda>point. version point \<in> set topVs) historyPoints"

text \<open>
  A \<^verbatim>\<open>Map\<close> keeps its keys in insertion order; \<^verbatim>\<open>set\<close> on a key it has replaces the
  value in place. It is an association list with distinct keys.
\<close>

fun map_set :: "('k \<times> 'v) list \<Rightarrow> 'k \<Rightarrow> 'v \<Rightarrow> ('k \<times> 'v) list" where
  "map_set [] k v = [(k, v)]"
| "map_set ((k', v') # m) k v = (if k' = k then (k', v) # m else (k', v') # map_set m k v)"

definition groupStep ::
  "(int \<times> rat HistoryPoint list) list \<Rightarrow> rat HistoryPoint \<Rightarrow> (int \<times> rat HistoryPoint list) list" where
  "groupStep pbd point =
     (let lastPoints = (case map_of pbd (date point) of None \<Rightarrow> [] | Some l \<Rightarrow> l)
      in map_set pbd (date point) (lastPoints @ [point]))"

definition pointsByDate :: "rat HistoryPoint list \<Rightarrow> (int \<times> rat HistoryPoint list) list" where
  "pointsByDate filtered = foldl groupStep [] filtered"

text \<open>
  \<^verbatim>\<open>
  const existingPoint = pointsByDate.get(date)!.find((p) => p.version === topVersion);
  if (existingPoint) { pointsWithZero.push({ date, ...existingPoint }); }
  else { pointsWithZero.push({ date, version: topVersion, count: 0 }); }
  \<close>
  The spread comes after \<^verbatim>\<open>date\<close>, so the pushed object has the three fields of
  \<^verbatim>\<open>existingPoint\<close>. The date is a key of the map, so \<^verbatim>\<open>get\<close> finds its list; the
  branch \<open>None\<close> of the lookup is not reached.
\<close>

definition zeroFillPoint ::
  "(int \<times> rat HistoryPoint list) list \<Rightarrow> int \<Rightarrow> string \<Rightarrow> rat HistoryPoint" where
  "zeroFillPoint pbd d topVersion =
     (case find (\<lambda>p. version p = topVersion)
             (case map_of pbd d of None \<Rightarrow> [] | Some l \<Rightarrow> l) of
        Some existingPoint \<Rightarrow> existingPoint
      | None \<Rightarrow> \<lparr>date = d, version = topVersion, count = 0\<rparr>)"

definition pointsWithZero ::
  "int \<Rightarrow> (int \<times> rat HistoryPoint list) list \<Rightarrow> string list \<Rightarrow> int list \<Rightarrow> rat HistoryPoint list" where
  "pointsWithZero earliestAllowableDate pbd inOrder datesAscending =
     concat (map (\<lambda>d. if d < earliestAllowableDate then []
                      else map (zeroFillPoint pbd d) inOrder) datesAscending)"

definition earliestAllowableDate :: "dayStartFn \<Rightarrow> rat HistoryPoint list \<Rightarrow> int \<Rightarrow> int" where
  "earliestAllowableDate dayStart historyPoints windowInDays =
     dayStart (date (last historyPoints)) - windowInDays * 24 * 60 * 60 * 1000"

definition filterTopN ::
  "dayStartFn \<Rightarrow> rat HistoryPoint list \<Rightarrow> int \<Rightarrow> int \<Rightarrow> rat HistoryPoint list" where
  "filterTopN dayStart historyPoints n windowInDays =
     (if length historyPoints = 0 then []
      else
        let earliest = earliestAllowableDate dayStart historyPoints windowInDays;
            topVs = topVersions earliest historyPoints n;
            inOrder = topVersionsInOrder topVs historyPoints;
            pbd = pointsByDate (filteredPoints topVs historyPoints);
            datesAscending = defaultSort (map fst pbd)
        in pointsWithZero earliest pbd inOrder datesAscending)"

section \<open>The rows of the chart\<close>

text \<open>
  \<^verbatim>\<open>
  const allVersionsSet = new Set(datapoints.map((p) => p.version));
  const allVersionsArr = [...allVersionsSet];
  const data: Array<{ date: number; versionCounts: Record<string, number> }> = [];
  for (const version of allVersionsArr) {
    for (const measurePoint of datapoints) {
      if (measurePoint.version === version) {
        const datePoint = data.find((p) => p.date === measurePoint.date);
        if (datePoint) { datePoint.versionCounts[version] = measurePoint.count; }
        else { data.push({ date: measurePoint.date,
                           versionCounts: { [version]: measurePoint.count } }); }
      }
    }
  }
  \<close>
  \<^verbatim>\<open>versionCounts\<close> is a plain object, so its keys are its own properties over those of
  \<^verbatim>\<open>Object.prototype\<close>. A computed key of an object literal always defines an own
  property. An assignment defines or overwrites an own property, except for the key
  \<^verbatim>\<open>__proto__\<close> when the object has no own property of that name: the assignment then
  reaches the setter of \<^verbatim>\<open>Object.prototype\<close>, which ignores a number. The map
  \<open>versionCounts\<close> holds the own properties.
\<close>

record 'n ChartRow =
  row_date :: int
  versionCounts :: "string \<rightharpoonup> 'n"

definition assignCount :: "(string \<rightharpoonup> 'n) \<Rightarrow> string \<Rightarrow> 'n \<Rightarrow> (string \<rightharpoonup> 'n)" where
  "assignCount counts v c =
     (if v = ''__proto__'' \<and> counts v = None then counts else counts(v \<mapsto> c))"

fun upsertRow :: "'n ChartRow list \<Rightarrow> int \<Rightarrow> string \<Rightarrow> 'n \<Rightarrow> 'n ChartRow list" where
  "upsertRow [] d v c = [\<lparr>row_date = d, versionCounts = [v \<mapsto> c]\<rparr>]"
| "upsertRow (r # rows) d v c =
     (if row_date r = d
      then r\<lparr>versionCounts := assignCount (versionCounts r) v c\<rparr> # rows
      else r # upsertRow rows d v c)"

definition rowStep :: "string \<Rightarrow> 'n ChartRow list \<Rightarrow> 'n HistoryPoint \<Rightarrow> 'n ChartRow list" where
  "rowStep v data measurePoint =
     (if version measurePoint = v
      then upsertRow data (date measurePoint) v (count measurePoint)
      else data)"

definition allVersionsArr :: "'n HistoryPoint list \<Rightarrow> string list" where
  "allVersionsArr datapoints = foldl set_add [] (map version datapoints)"

definition chartData :: "'n HistoryPoint list \<Rightarrow> 'n ChartRow list" where
  "chartData datapoints =
     foldl (\<lambda>data v. foldl (rowStep v) data datapoints) [] (allVersionsArr datapoints)"

text \<open>
  The entry for a version in the row of a date: the row is the one that
  \<^verbatim>\<open>data.find((p) => p.date === d)\<close> returns, the first with that date.
\<close>

definition rowCount :: "'n ChartRow list \<Rightarrow> int \<Rightarrow> string \<Rightarrow> 'n option" where
  "rowCount rows d v =
     (case find (\<lambda>r. row_date r = d) rows of None \<Rightarrow> None | Some r \<Rightarrow> versionCounts r v)"

section \<open>Properties of transformToPercentage\<close>

lemma addToTotal_apply:
  "addToTotal m p d =
     (if d = date p then Some ((case m (date p) of None \<Rightarrow> 0 | Some t \<Rightarrow> t) + count p) else m d)"
  by (simp add: addToTotal_def Let_def)

lemma dateTotal_Cons:
  "dateTotal (p # pts) d = (if date p = d then count p + dateTotal pts d else dateTotal pts d)"
  by (simp add: dateTotal_def)

lemma dateTotal_absent: "d \<notin> date ` set pts \<Longrightarrow> dateTotal pts d = 0"
proof -
  assume "d \<notin> date ` set pts"
  then have "filter (\<lambda>p. date p = d) pts = []"
    by (auto simp: filter_empty_conv)
  then show ?thesis by (simp add: dateTotal_def)
qed

lemma foldl_addToTotal:
  "foldl addToTotal m pts d =
     (if d \<in> date ` set pts
      then Some ((case m d of None \<Rightarrow> 0 | Some t \<Rightarrow> t) + dateTotal pts d)
      else m d)"
proof (induction pts arbitrary: m)
  case Nil
  show ?case by simp
next
  case (Cons p pts)
  have "foldl addToTotal m (p # pts) d = foldl addToTotal (addToTotal m p) pts d"
    by simp
  also have "\<dots> = (if d \<in> date ` set pts
      then Some ((case addToTotal m p d of None \<Rightarrow> 0 | Some t \<Rightarrow> t) + dateTotal pts d)
      else addToTotal m p d)"
    by (rule Cons.IH)
  also have "\<dots> = (if d \<in> date ` set (p # pts)
      then Some ((case m d of None \<Rightarrow> 0 | Some t \<Rightarrow> t) + dateTotal (p # pts) d)
      else m d)"
    by (auto simp: addToTotal_apply dateTotal_Cons dateTotal_absent split: option.splits)
  finally show ?case .
qed

lemma totalCountByDate_eq:
  "totalCountByDate pts d = (if d \<in> date ` set pts then Some (dateTotal pts d) else None)"
  by (simp add: totalCountByDate_def foldl_addToTotal)

lemma count_percentagePoint:
  "p \<in> set pts \<Longrightarrow>
   count (percentagePoint (totalCountByDate pts) p) = divide_number (count p) (dateTotal pts (date p))"
  by (simp add: percentagePoint_def totalCountByDate_eq)

lemma sum_list_divide:
  fixes t :: rat
  shows "sum_list (map (\<lambda>p. f p / t) xs) = sum_list (map f xs) / t"
  by (induction xs) (simp_all add: add_divide_distrib)

lemma transformToPercentage_fields:
  "length (transformToPercentage points) = length points \<and>
   (\<forall>i < length points.
      date (transformToPercentage points ! i) = date (points ! i) \<and>
      version (transformToPercentage points ! i) = version (points ! i))"
  by (simp add: transformToPercentage_def percentagePoint_def)

text \<open>
  Claim C9. For a date whose counts sum to a nonzero total, the output counts of the points
  of that date are the finite quotients \<open>count / total\<close>, and these quotients sum to
  exactly 1.
\<close>

theorem transformToPercentage_sums_to_one:
  assumes "dateTotal points d \<noteq> 0"
  shows "map count (filter (\<lambda>p. date p = d) (transformToPercentage points)) =
           map (\<lambda>p. Finite (count p / dateTotal points d)) (filter (\<lambda>p. date p = d) points) \<and>
         sum_list (map (\<lambda>p. count p / dateTotal points d) (filter (\<lambda>p. date p = d) points)) = 1"
proof
  have "filter (\<lambda>p. date p = d) (transformToPercentage points) =
          map (percentagePoint (totalCountByDate points)) (filter (\<lambda>p. date p = d) points)"
    by (simp add: transformToPercentage_def filter_map o_def percentagePoint_def)
  moreover have "\<forall>p \<in> set (filter (\<lambda>p. date p = d) points).
        count (percentagePoint (totalCountByDate points) p) = Finite (count p / dateTotal points d)"
    using assms by (auto simp: count_percentagePoint divide_number_def)
  ultimately show "map count (filter (\<lambda>p. date p = d) (transformToPercentage points)) =
           map (\<lambda>p. Finite (count p / dateTotal points d)) (filter (\<lambda>p. date p = d) points)"
    by simp
next
  show "sum_list (map (\<lambda>p. count p / dateTotal points d) (filter (\<lambda>p. date p = d) points)) = 1"
    using assms by (simp add: sum_list_divide dateTotal_def)
qed

text \<open>
  Claim C1, as the code has it. The quotient is not clamped. For a date whose total is
  nonzero the output count is the finite number \<open>count / total\<close>. For a date whose total
  is zero the output count is \<^verbatim>\<open>NaN\<close> when the count is zero, and an infinity when it is
  not.
\<close>

theorem transformToPercentage_zero_total:
  assumes "i < length points"
  shows "(dateTotal points (date (points ! i)) \<noteq> 0 \<longrightarrow>
            count (transformToPercentage points ! i) =
              Finite (count (points ! i) / dateTotal points (date (points ! i)))) \<and>
         (dateTotal points (date (points ! i)) = 0 \<and> count (points ! i) = 0 \<longrightarrow>
            count (transformToPercentage points ! i) = NaN) \<and>
         (dateTotal points (date (points ! i)) = 0 \<and> count (points ! i) \<noteq> 0 \<longrightarrow>
            count (transformToPercentage points ! i) \<in> {PosInfinity, NegInfinity})"
proof -
  have "points ! i \<in> set points" using assms by simp
  then have "count (transformToPercentage points ! i) =
      divide_number (count (points ! i)) (dateTotal points (date (points ! i)))"
    using assms by (simp add: transformToPercentage_def count_percentagePoint)
  then show ?thesis by (simp add: divide_number_def)
qed

text \<open>
  The scenario of the specification: two points of one date, both with count zero. Both
  output counts are \<^verbatim>\<open>NaN\<close>.
\<close>

theorem transformToPercentage_zero_total_counterexample:
  "transformToPercentage
     [\<lparr>date = 1, version = ''a'', count = 0\<rparr>, \<lparr>date = 1, version = ''b'', count = 0\<rparr>] =
     [\<lparr>date = 1, version = ''a'', count = NaN\<rparr>, \<lparr>date = 1, version = ''b'', count = NaN\<rparr>]"
  by (simp add: transformToPercentage_def totalCountByDate_def addToTotal_def percentagePoint_def
      divide_number_def)

theorem transformToPercentage_sums_to_one_witness:
  "dateTotal [\<lparr>date = 1, version = ''a'', count = 10\<rparr>, \<lparr>date = 1, version = ''b'', count = 30\<rparr>] 1 \<noteq> 0 \<and>
   map count (filter (\<lambda>p. date p = 1) (transformToPercentage
     [\<lparr>date = 1, version = ''a'', count = 10\<rparr>, \<lparr>date = 1, version = ''b'', count = 30\<rparr>])) =
     [Finite (1 / 4), Finite (3 / 4)]"
proof -
  have h: "dateTotal [\<lparr>date = 1, version = ''a'', count = 10\<rparr>, \<lparr>date = 1, version = ''b'', count = 30\<rparr>] 1 \<noteq> 0"
    by (simp add: dateTotal_def)
  show ?thesis
    using h transformToPercentage_sums_to_one [OF h] by (simp add: dateTotal_def)
qed

theorem transformToPercentage_zero_total_witness:
  "(1::nat) < length [\<lparr>date = 1, version = ''a'', count = 0::rat\<rparr>, \<lparr>date = 1, version = ''b'', count = 0\<rparr>] \<and>
   count (transformToPercentage
     [\<lparr>date = 1, version = ''a'', count = 0\<rparr>, \<lparr>date = 1, version = ''b'', count = 0\<rparr>] ! 1) = NaN"
  using transformToPercentage_zero_total
    [of 1 "[\<lparr>date = 1, version = ''a'', count = 0\<rparr>, \<lparr>date = 1, version = ''b'', count = 0\<rparr>]"]
  by (simp add: dateTotal_def)

section \<open>Properties of transformToPercentage on a store\<close>

lemma readCell_append: "a < length h \<Longrightarrow> readCell (h @ e) a = readCell h a"
  by (simp add: readCell_def nth_append)

lemma readCell_Some_less: "readCell h a = Some c \<Longrightarrow> a < length h"
  by (simp add: readCell_def split: if_splits)

lemma readCell_at_length: "readCell (h @ c # e) (length h) = Some c"
  by (simp add: readCell_def)

lemma readCell_at_Suc_length: "readCell (h @ c # c' # e) (Suc (length h)) = Some c'"
  by (simp add: readCell_def nth_append)

lemma holdsPoints_append:
  assumes "holdsPoints h points refs pts"
  shows "holdsPoints (h @ e) points refs pts"
proof -
  have c: "map (readCell h) refs = map (\<lambda>p. Some (PointCell p)) pts"
    using assms unfolding holdsPoints_def by blast
  have a: "readCell (h @ e) points = Some (ArrayCell refs)"
    using assms by (simp add: holdsPoints_def readCell_append readCell_Some_less)
  have b: "map (readCell (h @ e)) refs = map (readCell h) refs"
  proof (rule map_cong [OF refl])
    fix r assume "r \<in> set refs"
    then have "readCell h r \<in> set (map (readCell h) refs)" by simp
    then have "readCell h r \<in> set (map (\<lambda>p. Some (PointCell p)) pts)"
      by (simp only: c)
    then have "\<exists>p. readCell h r = Some (PointCell p)"
      by auto
    then show "readCell (h @ e) r = readCell h r"
      by (auto simp: readCell_append dest: readCell_Some_less)
  qed
  show ?thesis
    unfolding holdsPoints_def by (rule conjI [OF a trans [OF b c]])
qed

lemma holdsPoints_length: "holdsPoints h points refs pts \<Longrightarrow> length refs = length pts"
  by (auto simp: holdsPoints_def dest: map_eq_imp_length_eq)

lemma holdsPoints_getPoint:
  assumes "holdsPoints h points refs pts" and "k < length pts"
  shows "getPoint h points k = Some (pts ! k)"
proof -
  have len: "length refs = length pts" by (rule holdsPoints_length [OF assms(1)])
  have "map (readCell h) refs ! k = map (\<lambda>p. Some (PointCell p)) pts ! k"
    using assms(1) by (simp add: holdsPoints_def)
  then have "readCell h (refs ! k) = Some (PointCell (pts ! k))"
    using assms(2) len by simp
  then show ?thesis using assms len by (simp add: getPoint_def holdsPoints_def)
qed

lemma totalStep_run:
  assumes "holdsPoints h points refs pts" and "k < length pts"
  shows "totalStep points (length h) (Some (h @ [TotalsCell m])) k =
           Some (h @ [TotalsCell (addToTotal m (pts ! k))])"
proof -
  have "getPoint (h @ [TotalsCell m]) points k = Some (pts ! k)"
    by (rule holdsPoints_getPoint [OF holdsPoints_append [OF assms(1)] assms(2)])
  then show ?thesis by (simp add: totalStep_def readCell_at_length)
qed

lemma foldl_totalStep:
  assumes "holdsPoints h points refs pts"
  shows "\<forall>k \<in> set ks. k < length pts \<Longrightarrow>
     foldl (totalStep points (length h)) (Some (h @ [TotalsCell m])) ks =
       Some (h @ [TotalsCell (foldl addToTotal m (map (\<lambda>k. pts ! k) ks))])"
proof (induction ks arbitrary: m)
  case Nil
  show ?case by simp
next
  case (Cons k ks)
  have "foldl (totalStep points (length h)) (Some (h @ [TotalsCell m])) (k # ks) =
      foldl (totalStep points (length h)) (Some (h @ [TotalsCell (addToTotal m (pts ! k))])) ks"
    using Cons.prems by (simp add: totalStep_run [OF assms])
  also have "\<dots> = Some (h @ [TotalsCell (foldl addToTotal (addToTotal m (pts ! k)) (map (\<lambda>k. pts ! k) ks))])"
    using Cons.prems by (intro Cons.IH) simp
  finally show ?case by simp
qed

lemma upt_Cons_add: "n # [Suc n ..< Suc n + l] = [n ..< n + Suc l]"
  by (simp add: upt_conv_Cons)

lemma mapStep_run:
  assumes "holdsPoints h points refs pts" and "k < length pts"
  shows "mapStep points (length h) (Suc (length h))
           (Some (h @ TotalsCell m # ArrayCell outs # cs)) k =
         Some (h @ TotalsCell m # ArrayCell (outs @ [Suc (Suc (length h)) + length cs]) #
                 (cs @ [PercentCell (percentagePoint m (pts ! k))]))"
proof -
  let ?H = "h @ TotalsCell m # ArrayCell outs # cs"
  have g: "getPoint ?H points k = Some (pts ! k)"
    by (rule holdsPoints_getPoint [OF holdsPoints_append [OF assms(1)] assms(2)])
  have t: "readCell ?H (length h) = Some (TotalsCell m)"
    by (rule readCell_at_length)
  have r: "readCell (?H @ [PercentCell (percentagePoint m (pts ! k))]) (Suc (length h)) =
      Some (ArrayCell outs)"
    using readCell_at_Suc_length [of h "TotalsCell m" "ArrayCell outs"
        "cs @ [PercentCell (percentagePoint m (pts ! k))]"]
    by simp
  have u: "(?H @ [PercentCell (percentagePoint m (pts ! k))])
              [Suc (length h) := ArrayCell (outs @ [Suc (Suc (length h)) + length cs])] =
           h @ TotalsCell m # ArrayCell (outs @ [Suc (Suc (length h)) + length cs]) #
                 (cs @ [PercentCell (percentagePoint m (pts ! k))])"
    by (simp add: list_update_append)
  show ?thesis
    unfolding mapStep_def alloc_def using g t r u by simp
qed

lemma foldl_mapStep:
  assumes "holdsPoints h points refs pts"
  shows "\<forall>k \<in> set ks. k < length pts \<Longrightarrow>
     foldl (mapStep points (length h) (Suc (length h)))
        (Some (h @ TotalsCell m # ArrayCell outs # cs)) ks =
       Some (h @ TotalsCell m #
               ArrayCell (outs @ [Suc (Suc (length h)) + length cs ..< Suc (Suc (length h)) + length cs + length ks]) #
               (cs @ map (\<lambda>k. PercentCell (percentagePoint m (pts ! k))) ks))"
proof (induction ks arbitrary: outs cs)
  case Nil
  show ?case by simp
next
  case (Cons k ks)
  let ?c = "PercentCell (percentagePoint m (pts ! k))"
  let ?n = "Suc (Suc (length h)) + length cs"
  have "foldl (mapStep points (length h) (Suc (length h)))
        (Some (h @ TotalsCell m # ArrayCell outs # cs)) (k # ks) =
      foldl (mapStep points (length h) (Suc (length h)))
        (Some (h @ TotalsCell m # ArrayCell (outs @ [?n]) # (cs @ [?c]))) ks"
    using Cons.prems by (simp add: mapStep_run [OF assms])
  also have "\<dots> = Some (h @ TotalsCell m #
               ArrayCell ((outs @ [?n]) @
                  [Suc (Suc (length h)) + length (cs @ [?c]) ..< Suc (Suc (length h)) + length (cs @ [?c]) + length ks]) #
               ((cs @ [?c]) @ map (\<lambda>k. PercentCell (percentagePoint m (pts ! k))) ks))"
    using Cons.prems by (intro Cons.IH) simp
  also have "(outs @ [?n]) @
                  [Suc (Suc (length h)) + length (cs @ [?c]) ..< Suc (Suc (length h)) + length (cs @ [?c]) + length ks] =
             outs @ [?n ..< ?n + length (k # ks)]"
  proof -
    have "Suc (Suc (length h)) + length (cs @ [?c]) = Suc ?n" by simp
    moreover have "?n # [Suc ?n ..< Suc ?n + length ks] = [?n ..< ?n + length (k # ks)]"
      unfolding length_Cons by (rule upt_Cons_add)
    ultimately show ?thesis by (simp only: append_assoc append_Cons append_Nil)
  qed
  finally show ?case by (simp only: append_assoc list.map append_Cons append_Nil)
qed

lemma transformToPercentage_call_eq:
  assumes "holdsPoints h points refs pts"
  shows "transformToPercentage_call h points =
     Some (Suc (length h),
           h @ TotalsCell (totalCountByDate pts) #
               ArrayCell [Suc (Suc (length h)) ..< Suc (Suc (length h)) + length pts] #
               map PercentCell (transformToPercentage pts))"
proof -
  have len: "length refs = length pts" by (rule holdsPoints_length [OF assms])
  have arr: "readCell h points = Some (ArrayCell refs)"
    using assms by (simp add: holdsPoints_def)
  have idx: "\<forall>k \<in> set [0..<length pts]. k < length pts" by simp
  have nth: "map (\<lambda>k. pts ! k) [0..<length pts] = pts" by (rule map_nth)
  have l1: "foldl (totalStep points (length h)) (Some (h @ [TotalsCell Map.empty])) [0..<length pts] =
      Some (h @ [TotalsCell (totalCountByDate pts)])"
    using foldl_totalStep [OF assms idx, of Map.empty] by (simp only: nth totalCountByDate_def)
  have "map (\<lambda>k. PercentCell (percentagePoint (totalCountByDate pts) (pts ! k))) [0..<length pts] =
      map (\<lambda>p. PercentCell (percentagePoint (totalCountByDate pts) p)) (map (\<lambda>k. pts ! k) [0..<length pts])"
    by (simp only: map_map o_def)
  then have cells: "map (\<lambda>k. PercentCell (percentagePoint (totalCountByDate pts) (pts ! k))) [0..<length pts] =
      map PercentCell (transformToPercentage pts)"
    by (simp only: nth) (simp add: transformToPercentage_def)
  have l2: "foldl (mapStep points (length h) (Suc (length h)))
        (Some (h @ TotalsCell (totalCountByDate pts) # ArrayCell [] # [])) [0..<length pts] =
      Some (h @ TotalsCell (totalCountByDate pts) #
               ArrayCell [Suc (Suc (length h)) ..< Suc (Suc (length h)) + length pts] #
               map PercentCell (transformToPercentage pts))"
    using foldl_mapStep [OF assms idx, of "totalCountByDate pts" "[]" "[]"] cells by simp
  show ?thesis
    unfolding transformToPercentage_call_def alloc_def using arr len l1 l2 by simp
qed

lemma readCell_fresh_cells:
  "map (readCell (h @ c # c' # cells)) [Suc (Suc (length h)) ..< Suc (Suc (length h)) + length cells] =
     map Some cells"
proof (rule nth_equalityI)
  show "length (map (readCell (h @ c # c' # cells)) [Suc (Suc (length h)) ..< Suc (Suc (length h)) + length cells]) =
      length (map Some cells)"
    by (simp only: length_map length_upt add_diff_cancel_left')
next
  fix i
  assume "i < length (map (readCell (h @ c # c' # cells)) [Suc (Suc (length h)) ..< Suc (Suc (length h)) + length cells])"
  then have i: "i < length cells"
    by (simp only: length_map length_upt add_diff_cancel_left')
  have "(h @ c # c' # cells) ! (length h + Suc (Suc i)) = (c # c' # cells) ! Suc (Suc i)"
    by (rule nth_append_length_plus)
  then have "(h @ c # c' # cells) ! (Suc (Suc (length h)) + i) = cells ! i"
    by simp
  then show "map (readCell (h @ c # c' # cells)) [Suc (Suc (length h)) ..< Suc (Suc (length h)) + length cells] ! i =
      map Some cells ! i"
    using i by (simp add: readCell_def del: upt_Suc)
qed

text \<open>
  Claim C10. Let the store hold at \<open>points\<close> an array of point objects. Then the call
  returns; every cell that existed before the call is the same after it, so the array
  \<^verbatim>\<open>points\<close> and its point objects are unmodified; the result is a new array of new
  objects; it has as many elements as the input, in the same order, and the object at
  each index has the date and the version of the input point at that index. The values of
  the new objects are those of the function \<open>transformToPercentage\<close>.
\<close>

theorem transformToPercentage_frame:
  assumes "holdsPoints h points refs pts"
  shows "\<exists>result h' outs.
      transformToPercentage_call h points = Some (result, h') \<and>
      take (length h) h' = h \<and>
      holdsPoints h' points refs pts \<and>
      length h \<le> result \<and>
      readCell h' result = Some (ArrayCell outs) \<and>
      (\<forall>out \<in> set outs. length h \<le> out) \<and>
      map (readCell h') outs = map (\<lambda>q. Some (PercentCell q)) (transformToPercentage pts) \<and>
      length (transformToPercentage pts) = length pts \<and>
      (\<forall>i < length pts.
         date (transformToPercentage pts ! i) = date (pts ! i) \<and>
         version (transformToPercentage pts ! i) = version (pts ! i))"
proof -
  let ?n = "length h"
  let ?cells = "map PercentCell (transformToPercentage pts)"
  let ?outs = "[Suc (Suc ?n) ..< Suc (Suc ?n) + length pts]"
  let ?h' = "h @ TotalsCell (totalCountByDate pts) # ArrayCell ?outs # ?cells"
  have run: "transformToPercentage_call h points = Some (Suc ?n, ?h')"
    by (rule transformToPercentage_call_eq [OF assms])
  have same: "take ?n ?h' = h" by simp
  have kept: "holdsPoints ?h' points refs pts"
    by (rule holdsPoints_append [OF assms])
  have res: "readCell ?h' (Suc ?n) = Some (ArrayCell ?outs)"
    by (rule readCell_at_Suc_length)
  have fresh: "\<forall>out \<in> set ?outs. ?n \<le> out" by (simp del: upt_Suc)
  have "map (readCell ?h') [Suc (Suc ?n) ..< Suc (Suc ?n) + length ?cells] = map Some ?cells"
    by (rule readCell_fresh_cells)
  then have vals: "map (readCell ?h') ?outs =
      map (\<lambda>q. Some (PercentCell q)) (transformToPercentage pts)"
    by (simp add: transformToPercentage_fields o_def del: upt_Suc)
  have le: "?n \<le> Suc ?n" by simp
  have f1: "length (transformToPercentage pts) = length pts"
    and f2: "\<forall>i < length pts.
         date (transformToPercentage pts ! i) = date (pts ! i) \<and>
         version (transformToPercentage pts ! i) = version (pts ! i)"
    using transformToPercentage_fields [of pts] by blast+
  show ?thesis
    using run same kept le res fresh vals f1 f2
    by (intro exI [of _ "Suc ?n"] exI [of _ ?h'] exI [of _ ?outs] conjI)
qed

theorem transformToPercentage_frame_witness:
  "holdsPoints
     [PointCell \<lparr>date = 1, version = ''a'', count = 10\<rparr>,
      PointCell \<lparr>date = 1, version = ''b'', count = 30\<rparr>, ArrayCell [0, 1]]
     2 [0, 1]
     [\<lparr>date = 1, version = ''a'', count = 10\<rparr>, \<lparr>date = 1, version = ''b'', count = 30\<rparr>] \<and>
   (\<exists>result h' outs.
      transformToPercentage_call
        [PointCell \<lparr>date = 1, version = ''a'', count = 10\<rparr>,
         PointCell \<lparr>date = 1, version = ''b'', count = 30\<rparr>, ArrayCell [0, 1]] 2 =
        Some (result, h') \<and>
      take 3 h' =
        [PointCell \<lparr>date = 1, version = ''a'', count = 10\<rparr>,
         PointCell \<lparr>date = 1, version = ''b'', count = 30\<rparr>, ArrayCell [0, 1]] \<and>
      3 \<le> result \<and>
      readCell h' result = Some (ArrayCell outs) \<and>
      map (readCell h') outs =
        [Some (PercentCell \<lparr>date = 1, version = ''a'', count = Finite (1 / 4)\<rparr>),
         Some (PercentCell \<lparr>date = 1, version = ''b'', count = Finite (3 / 4)\<rparr>)])"
proof -
  let ?h = "[PointCell \<lparr>date = 1, version = ''a'', count = 10\<rparr>,
      PointCell \<lparr>date = 1, version = ''b'', count = 30\<rparr>, ArrayCell [0, 1]]"
  let ?pts = "[\<lparr>date = 1, version = ''a'', count = 10\<rparr>, \<lparr>date = 1, version = ''b'', count = 30 :: rat\<rparr>]"
  have hp: "holdsPoints ?h 2 [0, 1] ?pts"
    by (simp add: holdsPoints_def readCell_def)
  have v: "transformToPercentage ?pts =
      [\<lparr>date = 1, version = ''a'', count = Finite (1 / 4)\<rparr>,
       \<lparr>date = 1, version = ''b'', count = Finite (3 / 4)\<rparr>]"
    by (simp add: transformToPercentage_def totalCountByDate_def addToTotal_def
        percentagePoint_def divide_number_def)
  have l: "length ?h = 3" by simp
  from transformToPercentage_frame [OF hp] obtain result h' outs where
    r: "transformToPercentage_call ?h 2 = Some (result, h')"
    and t: "take (length ?h) h' = ?h" and f: "length ?h \<le> result"
    and a: "readCell h' result = Some (ArrayCell outs)"
    and m: "map (readCell h') outs = map (\<lambda>q. Some (PercentCell q)) (transformToPercentage ?pts)"
    by blast
  have m': "map (readCell h') outs =
        [Some (PercentCell \<lparr>date = 1, version = ''a'', count = Finite (1 / 4)\<rparr>),
         Some (PercentCell \<lparr>date = 1, version = ''b'', count = Finite (3 / 4)\<rparr>)]"
    using m unfolding v by simp
  have "transformToPercentage_call ?h 2 = Some (result, h') \<and>
      take 3 h' = ?h \<and> 3 \<le> result \<and> readCell h' result = Some (ArrayCell outs) \<and>
      map (readCell h') outs =
        [Some (PercentCell \<lparr>date = 1, version = ''a'', count = Finite (1 / 4)\<rparr>),
         Some (PercentCell \<lparr>date = 1, version = ''b'', count = Finite (3 / 4)\<rparr>)]"
    using r t [unfolded l] f [unfolded l] a m' by (intro conjI)
  then have "\<exists>result h' outs. transformToPercentage_call ?h 2 = Some (result, h') \<and>
      take 3 h' = ?h \<and> 3 \<le> result \<and> readCell h' result = Some (ArrayCell outs) \<and>
      map (readCell h') outs =
        [Some (PercentCell \<lparr>date = 1, version = ''a'', count = Finite (1 / 4)\<rparr>),
         Some (PercentCell \<lparr>date = 1, version = ''b'', count = Finite (3 / 4)\<rparr>)]"
    by (intro exI)
  with hp show ?thesis by (rule conjI)
qed

section \<open>Properties of calculateDateTicks\<close>

lemma searchTickInterval_terminates:
  assumes "0 \<le> m" and "0 < ti"
  shows "\<exists>r. searchTickInterval dur m ti = Some r"
  using assms(2)
proof (induction "nat (dur div ti)" arbitrary: ti rule: less_induct)
  case less
  show ?case
  proof (cases "dur div ti > m")
    case False
    then show ?thesis by (subst searchTickInterval.simps) simp
  next
    case True
    have half: "dur div (ti * 2) = (dur div ti) div 2"
      using less.prems by (simp add: zdiv_zmult2_eq)
    have "0 < dur div ti" using True assms(1) by linarith
    then have "nat (dur div (ti * 2)) < nat (dur div ti)"
      unfolding half by linarith
    moreover have "0 < ti * 2" using less.prems by simp
    ultimately obtain r where "searchTickInterval dur m (ti * 2) = Some r"
      using less.hyps by blast
    then show ?thesis using True by (subst searchTickInterval.simps) simp
  qed
qed

lemma searchTickInterval_loops_aux:
  assumes "searchTickInterval dur m ti = Some r"
  shows "\<not> (m < 0 \<and> 0 \<le> dur \<and> 0 < ti)"
proof (rule searchTickInterval.raw_induct
         [where P = "\<lambda>dur m ti r. \<not> (m < 0 \<and> 0 \<le> dur \<and> 0 < ti)", OF _ assms])
  fix f :: "int \<Rightarrow> int \<Rightarrow> int \<Rightarrow> int option" and dur m ti r :: int
  assume ih: "\<And>dur m ti r. f dur m ti = Some r \<Longrightarrow> \<not> (m < 0 \<and> 0 \<le> dur \<and> 0 < ti)"
    and step: "(if m < dur div ti then f dur m (ti * 2) else Some ti) = Some r"
  show "\<not> (m < 0 \<and> 0 \<le> dur \<and> 0 < ti)"
  proof
    assume a: "m < 0 \<and> 0 \<le> dur \<and> 0 < ti"
    then have "0 \<le> dur div ti" by (simp add: pos_imp_zdiv_nonneg_iff)
    then have "dur div ti > m" using a by linarith
    then have "f dur m (ti * 2) = Some r" using step by simp
    from ih [OF this] show False using a by auto
  qed
qed

lemma searchTickInterval_loops:
  "m < 0 \<Longrightarrow> 0 \<le> dur \<Longrightarrow> 0 < ti \<Longrightarrow> searchTickInterval dur m ti = None"
  using searchTickInterval_loops_aux [of dur m ti] by (cases "searchTickInterval dur m ti") auto

lemma set_add_sorted:
  assumes "sorted_wrt (<) ts" and "\<forall>t \<in> set ts. t \<le> d"
  shows "sorted_wrt (<) (set_add ts (d::int))"
proof (cases "d \<in> set ts")
  case True
  then show ?thesis using assms by (simp add: set_add_def)
next
  case False
  then have "\<forall>t \<in> set ts. t < d" using assms(2) by (auto simp: less_le)
  then show ?thesis using False assms(1) by (simp add: set_add_def sorted_wrt_append)
qed

lemma set_set_add: "set (set_add ts d) = insert d (set ts)"
  by (auto simp: set_add_def)

lemma hd_set_add: "ts \<noteq> [] \<Longrightarrow> hd (set_add ts d) = hd ts"
  by (simp add: set_add_def)

lemma set_add_nonempty: "set_add ts d \<noteq> []"
  by (auto simp: set_add_def)

lemma foldl_tickStep:
  assumes "sorted_wrt (<) ts" and "\<forall>t \<in> set ts. \<forall>d \<in> set ds. t \<le> d" and "sorted ds" and "ts \<noteq> []"
  shows "sorted_wrt (<) (fst (foldl (tickStep dayStart ti) (ts, nt) ds)) \<and>
         hd (fst (foldl (tickStep dayStart ti) (ts, nt) ds)) = hd ts \<and>
         set (fst (foldl (tickStep dayStart ti) (ts, nt) ds)) \<subseteq> set ts \<union> set ds \<and>
         fst (foldl (tickStep dayStart ti) (ts, nt) ds) \<noteq> []"
  using assms
proof (induction ds arbitrary: ts nt)
  case Nil
  then show ?case by simp
next
  case (Cons d ds)
  show ?case
  proof (cases "d \<ge> nt")
    case False
    then have step: "tickStep dayStart ti (ts, nt) d = (ts, nt)"
      by (simp add: tickStep_def)
    have "\<forall>t \<in> set ts. \<forall>d \<in> set ds. t \<le> d" using Cons.prems(2) by simp
    moreover have "sorted ds" using Cons.prems(3) by simp
    ultimately show ?thesis
      using Cons.IH [of ts nt] Cons.prems(1,4) step by auto
  next
    case True
    then have step: "tickStep dayStart ti (ts, nt) d = (set_add ts d, fromDayStart dayStart d ti)"
      by (simp add: tickStep_def)
    have s: "sorted_wrt (<) (set_add ts d)"
      using Cons.prems(1,2) by (intro set_add_sorted) auto
    have b: "\<forall>t \<in> set (set_add ts d). \<forall>e \<in> set ds. t \<le> e"
      using Cons.prems(2,3) by (auto simp: set_set_add)
    have "sorted ds" using Cons.prems(3) by simp
    from Cons.IH [OF s b this set_add_nonempty, of "fromDayStart dayStart d ti"]
    show ?thesis using step Cons.prems(4) by (auto simp: hd_set_add set_set_add)
  qed
qed

lemma scanTicks_sorted:
  assumes "sorted (first # rest)"
  shows "sorted_wrt (<) (scanTicks dayStart ti first (first # rest)) \<and>
         hd (scanTicks dayStart ti first (first # rest)) = first \<and>
         set (scanTicks dayStart ti first (first # rest)) \<subseteq> set (first # rest) \<and>
         scanTicks dayStart ti first (first # rest) \<noteq> []"
proof -
  have "\<forall>t \<in> set [first]. \<forall>d \<in> set (first # rest). t \<le> d"
    using assms by auto
  from foldl_tickStep [OF _ this assms, of dayStart ti "fromDayStart dayStart first ti"]
  show ?thesis by (auto simp: scanTicks_def)
qed

lemma sorted_hd_last: "sorted (xs::int list) \<Longrightarrow> xs \<noteq> [] \<Longrightarrow> hd xs \<le> last xs"
  by (cases xs) (auto simp: last_in_set)

text \<open>
  Claim C2, as the code has it. With \<^verbatim>\<open>maxTicks\<close> 0 the result is empty for every date
  list, the empty one too. For a non-empty date list \<^verbatim>\<open>maxTicks\<close> 1 yields the first date
  alone and \<^verbatim>\<open>maxTicks\<close> 2 yields the first and the last date. For the empty date list
  and any other \<^verbatim>\<open>maxTicks\<close> the result is not empty: it holds \<^verbatim>\<open>undefined\<close>, twice when
  \<^verbatim>\<open>maxTicks\<close> is 2. The component returns before it computes ticks when there are no
  points.
\<close>

theorem calculateDateTicks_base_cases:
  "calculateDateTicks dayStart dates 0 = Some [] \<and>
   (dates \<noteq> [] \<longrightarrow>
      calculateDateTicks dayStart dates 1 = Some [Timestamp (hd dates)] \<and>
      calculateDateTicks dayStart dates 2 = Some [Timestamp (hd dates), Timestamp (last dates)]) \<and>
   (maxTicks \<noteq> 0 \<longrightarrow>
      calculateDateTicks dayStart [] maxTicks =
        Some (if maxTicks = 2 then [Undefined, Undefined] else [Undefined]))"
  by (cases dates) (simp_all add: calculateDateTicks_def firstDate_def lastDate_def)

text \<open>
  The empty date list with \<^verbatim>\<open>maxTicks\<close> 1: the result has one element.
\<close>

theorem calculateDateTicks_base_cases_counterexample:
  "calculateDateTicks utcDayStart [] 1 = Some [Undefined]"
  by (simp add: calculateDateTicks_def firstDate_def)

theorem calculateDateTicks_base_cases_witness:
  "[5, 9 :: int] \<noteq> [] \<and> (3::int) \<noteq> 0 \<and>
   calculateDateTicks utcDayStart [5, 9] 0 = Some [] \<and>
   calculateDateTicks utcDayStart [5, 9] 1 = Some [Timestamp 5] \<and>
   calculateDateTicks utcDayStart [5, 9] 2 = Some [Timestamp 5, Timestamp 9] \<and>
   calculateDateTicks utcDayStart [] 3 = Some [Undefined]"
  using calculateDateTicks_base_cases [of utcDayStart "[5, 9]" 3]
  by simp

text \<open>
  Claim C5, as the code has it. For a non-empty date list in ascending order (equal
  neighbours allowed) and a non-negative \<^verbatim>\<open>maxTicks\<close>, the function returns; its ticks are
  dates of the input in ascending order; from \<^verbatim>\<open>maxTicks\<close> 1 on the first tick is the first
  date; and the ticks are strictly increasing unless \<^verbatim>\<open>maxTicks\<close> is 2 and the first and
  the last date are the same. Nothing is said about the number of ticks.
\<close>

theorem calculateDateTicks_sorted:
  assumes "dates \<noteq> []" and "sorted dates" and "0 \<le> maxTicks"
  shows "\<exists>ts. calculateDateTicks dayStart dates maxTicks = Some (map Timestamp ts) \<and>
              set ts \<subseteq> set dates \<and> sorted ts \<and>
              (1 \<le> maxTicks \<longrightarrow> ts \<noteq> [] \<and> hd ts = hd dates) \<and>
              (maxTicks \<noteq> 2 \<or> hd dates \<noteq> last dates \<longrightarrow> sorted_wrt (<) ts)"
proof -
  obtain first rest where dates: "dates = first # rest"
    using assms(1) by (cases dates) auto
  have le: "hd dates \<le> last dates"
    by (rule sorted_hd_last [OF assms(2) assms(1)])
  consider "maxTicks = 0" | "maxTicks = 1" | "maxTicks = 2" | "3 \<le> maxTicks"
    using assms(3) by linarith
  then show ?thesis
  proof cases
    case 1
    have "calculateDateTicks dayStart dates maxTicks = Some (map Timestamp [])"
      using 1 by (simp add: calculateDateTicks_def)
    then show ?thesis using 1 by (intro exI [of _ "[]"]) simp
  next
    case 2
    have "calculateDateTicks dayStart dates maxTicks = Some (map Timestamp [first])"
      using 2 dates by (simp add: calculateDateTicks_def firstDate_def)
    then show ?thesis using dates 2 by (intro exI [of _ "[first]"]) simp
  next
    case 3
    have "calculateDateTicks dayStart dates maxTicks = Some (map Timestamp [first, last dates])"
      using 3 dates by (simp add: calculateDateTicks_def firstDate_def lastDate_def)
    moreover have "last dates \<in> set dates" using assms(1) by simp
    ultimately show ?thesis
      using dates 3 le by (intro exI [of _ "[first, last dates]"]) auto
  next
    case 4
    have "0 \<le> maxTicks - 1" using 4 by simp
    moreover have "0 < weekDuration" by (simp add: weekDuration_def dayDuration_def)
    ultimately obtain ti where
      ti: "searchTickInterval (last dates - first) (maxTicks - 1) weekDuration = Some ti"
      using searchTickInterval_terminates by blast
    have calc: "calculateDateTicks dayStart dates maxTicks =
            Some (map Timestamp (scanTicks dayStart ti first dates))"
      using 4 dates ti by (simp add: calculateDateTicks_def)
    have "sorted (first # rest)" using assms(2) dates by simp
    note scan = scanTicks_sorted [OF this, of dayStart ti, folded dates]
    have "sorted (scanTicks dayStart ti first dates)"
      using scan by (simp add: strict_sorted_imp_sorted)
    then show ?thesis
      using calc scan dates by (intro exI [of _ "scanTicks dayStart ti first dates"]) simp
  qed
qed

text \<open>
  Four runs against the claim as it was stated: a single date with \<^verbatim>\<open>maxTicks\<close> 2 gives
  the date twice; dates in descending order give descending ticks; four dates a week
  apart, the first at noon, give four ticks with \<^verbatim>\<open>maxTicks\<close> 3; and with a negative
  \<^verbatim>\<open>maxTicks\<close> the search for the interval never ends.
\<close>

theorem calculateDateTicks_sorted_counterexample:
  "calculateDateTicks utcDayStart [5] 2 = Some [Timestamp 5, Timestamp 5] \<and>
   calculateDateTicks utcDayStart [10, 5] 2 = Some [Timestamp 10, Timestamp 5] \<and>
   calculateDateTicks utcDayStart [43200000, 604800000, 1209600000, 1814400000] 3 =
     Some [Timestamp 43200000, Timestamp 604800000, Timestamp 1209600000, Timestamp 1814400000] \<and>
   calculateDateTicks utcDayStart [5] (- 1) = None"
proof -
  have "calculateDateTicks utcDayStart [5] (- 1) = None"
    by (simp add: calculateDateTicks_def searchTickInterval_loops weekDuration_def dayDuration_def)
  moreover have "calculateDateTicks utcDayStart [43200000, 604800000, 1209600000, 1814400000] 3 =
     Some [Timestamp 43200000, Timestamp 604800000, Timestamp 1209600000, Timestamp 1814400000]"
    by (simp add: calculateDateTicks_def searchTickInterval.simps weekDuration_def dayDuration_def
        scanTicks_def tickStep_def fromDayStart_def utcDayStart_def set_add_def)
  ultimately show ?thesis
    by (simp add: calculateDateTicks_def firstDate_def lastDate_def)
qed

theorem calculateDateTicks_sorted_witness:
  "[0, 86400000, 3456000000 :: int] \<noteq> [] \<and> sorted [0, 86400000, 3456000000 :: int] \<and> (0::int) \<le> 6 \<and>
   calculateDateTicks utcDayStart [0, 86400000, 3456000000] 6 =
     Some [Timestamp 0, Timestamp 3456000000] \<and>
   (\<exists>ts. calculateDateTicks utcDayStart [0, 86400000, 3456000000] 6 = Some (map Timestamp ts) \<and>
         hd ts = 0 \<and> sorted_wrt (<) ts)"
proof -
  have v: "calculateDateTicks utcDayStart [0, 86400000, 3456000000] 6 =
     Some [Timestamp 0, Timestamp 3456000000]"
    by (simp add: calculateDateTicks_def searchTickInterval.simps
      weekDuration_def dayDuration_def scanTicks_def tickStep_def fromDayStart_def
      utcDayStart_def set_add_def)
  have h1: "[0, 86400000, 3456000000 :: int] \<noteq> []" by simp
  have h2: "sorted [0, 86400000, 3456000000 :: int]" by simp
  have h3: "(0::int) \<le> 6" by simp
  from calculateDateTicks_sorted [OF h1 h2 h3, of utcDayStart]
  have "\<exists>ts. calculateDateTicks utcDayStart [0, 86400000, 3456000000] 6 = Some (map Timestamp ts) \<and>
         hd ts = 0 \<and> sorted_wrt (<) ts"
    by auto
  then show ?thesis using v h1 h2 h3 by blast
qed

section \<open>Properties of filterTopN\<close>

subsection \<open>The map of points by date\<close>

lemma map_fst_map_set:
  "map fst (map_set m k v) = (if k \<in> fst ` set m then map fst m else map fst m @ [k])"
  by (induction m k v rule: map_set.induct) auto

lemma map_of_map_set: "map_of (map_set m k v) = (map_of m)(k \<mapsto> v)"
  by (induction m k v rule: map_set.induct) (auto simp: fun_eq_iff)

lemma map_of_groupStep:
  "map_of (groupStep pbd p) d =
     (if d = date p
      then Some ((case map_of pbd (date p) of None \<Rightarrow> [] | Some l \<Rightarrow> l) @ [p])
      else map_of pbd d)"
  by (simp add: groupStep_def Let_def map_of_map_set)

lemma distinct_groupStep: "distinct (map fst pbd) \<Longrightarrow> distinct (map fst (groupStep pbd p))"
  by (simp add: groupStep_def Let_def map_fst_map_set)

lemma foldl_groupStep_distinct:
  "distinct (map fst m) \<Longrightarrow> distinct (map fst (foldl groupStep m pts))"
  by (induction pts arbitrary: m) (simp_all add: distinct_groupStep)

lemma foldl_groupStep_map_of:
  "map_of (foldl groupStep m pts) d =
     (if d \<in> date ` set pts
      then Some ((case map_of m d of None \<Rightarrow> [] | Some l \<Rightarrow> l) @ filter (\<lambda>p. date p = d) pts)
      else map_of m d)"
proof (induction pts arbitrary: m)
  case Nil
  show ?case by simp
next
  case (Cons p pts)
  have absent: "d \<notin> date ` set pts \<Longrightarrow> filter (\<lambda>p. date p = d) pts = []"
    by (auto simp: filter_empty_conv)
  have "map_of (foldl groupStep m (p # pts)) d = map_of (foldl groupStep (groupStep m p) pts) d"
    by simp
  also have "\<dots> = (if d \<in> date ` set pts
      then Some ((case map_of (groupStep m p) d of None \<Rightarrow> [] | Some l \<Rightarrow> l) @ filter (\<lambda>p. date p = d) pts)
      else map_of (groupStep m p) d)"
    by (rule Cons.IH)
  also have "\<dots> = (if d \<in> date ` set (p # pts)
      then Some ((case map_of m d of None \<Rightarrow> [] | Some l \<Rightarrow> l) @ filter (\<lambda>p. date p = d) (p # pts))
      else map_of m d)"
    using absent by (auto simp: map_of_groupStep split: option.splits)
  finally show ?case .
qed

lemma pointsByDate_map_of:
  "map_of (pointsByDate pts) d =
     (if d \<in> date ` set pts then Some (filter (\<lambda>p. date p = d) pts) else None)"
  by (simp add: pointsByDate_def foldl_groupStep_map_of)

lemma pointsByDate_distinct: "distinct (map fst (pointsByDate pts))"
  by (simp add: pointsByDate_def foldl_groupStep_distinct)

lemma pointsByDate_keys: "fst ` set (pointsByDate pts) = date ` set pts"
proof -
  have "fst ` set (pointsByDate pts) = dom (map_of (pointsByDate pts))"
    by (simp add: dom_map_of_conv_image_fst)
  also have "\<dots> = date ` set pts"
    by (auto simp: dom_def pointsByDate_map_of)
  finally show ?thesis .
qed

lemma find_Some_D: "find P xs = Some x \<Longrightarrow> P x \<and> x \<in> set xs"
  by (induction xs) (auto split: if_splits)

lemma zeroFillPoint_fields:
  "date (zeroFillPoint (pointsByDate pts) d v) = d \<and>
   version (zeroFillPoint (pointsByDate pts) d v) = v"
proof (cases "find (\<lambda>p. version p = v)
          (case map_of (pointsByDate pts) d of None \<Rightarrow> [] | Some l \<Rightarrow> l)")
  case None
  then show ?thesis by (simp add: zeroFillPoint_def)
next
  case (Some q)
  from find_Some_D [OF this] have "version q = v" and "date q = d"
    by (auto simp: pointsByDate_map_of split: if_splits)
  then show ?thesis using Some by (simp add: zeroFillPoint_def)
qed

subsection \<open>The kept versions\<close>

lemma map_fst_addVersionCount:
  "map fst (addVersionCount l v c) = (if v \<in> fst ` set l then map fst l else map fst l @ [v])"
  by (induction l v c rule: addVersionCount.induct) auto

lemma fst_set_addVersionCount:
  "fst ` set (addVersionCount l v c) = insert v (fst ` set l)"
  by (induction l v c rule: addVersionCount.induct) auto

lemma foldl_windowStep:
  "distinct (map fst acc) \<Longrightarrow>
   distinct (map fst (foldl (windowStep e) acc pts)) \<and>
   fst ` set (foldl (windowStep e) acc pts) = fst ` set acc \<union> version ` {p \<in> set pts. e \<le> date p}"
proof (induction pts arbitrary: acc)
  case Nil
  then show ?case by simp
next
  case (Cons p pts)
  have d: "distinct (map fst (windowStep e acc p))"
    using Cons.prems by (simp add: windowStep_def map_fst_addVersionCount)
  have s: "fst ` set (windowStep e acc p) =
      fst ` set acc \<union> (if e \<le> date p then {version p} else {})"
    by (simp add: windowStep_def fst_set_addVersionCount)
  have "fst ` set (foldl (windowStep e) (windowStep e acc p) pts) =
      fst ` set acc \<union> version ` {q \<in> set (p # pts). e \<le> date q}"
    using Cons.IH [OF d] s by auto
  then show ?case using Cons.IH [OF d] by simp
qed

lemma versionsInWindow_distinct: "distinct (map fst (versionsInWindow e pts))"
  using foldl_windowStep [of "[]" e pts] by (simp add: versionsInWindow_def)

lemma versionsInWindow_keys:
  "fst ` set (versionsInWindow e pts) = version ` {p \<in> set pts. e \<le> date p}"
  using foldl_windowStep [of "[]" e pts] by (simp add: versionsInWindow_def)

lemma slice_from_drop: "\<exists>k. slice_from s xs = drop k xs"
  by (auto simp: slice_from_def Let_def)

lemma slice_from_nonneg: "0 \<le> s \<Longrightarrow> slice_from s xs = drop (nat s) xs"
  by (auto simp: slice_from_def Let_def min_def)

lemma length_slice_from_neg: "0 < n \<Longrightarrow> length (slice_from (- n) xs) \<le> nat n"
  by (auto simp: slice_from_def Let_def max_def)

lemma topVersions_distinct: "distinct (topVersions e pts n)"
proof -
  obtain k where "slice_from (- n) (sort_key snd (versionsInWindow e pts)) =
      drop k (sort_key snd (versionsInWindow e pts))"
    using slice_from_drop by blast
  moreover have "distinct (map fst (sort_key snd (versionsInWindow e pts)))"
    using versionsInWindow_distinct [of e pts]
    by (metis distinct_map distinct_sort set_sort)
  ultimately show ?thesis
    by (simp add: topVersions_def drop_map [symmetric] distinct_drop)
qed

lemma topVersions_subset:
  "set (topVersions e pts n) \<subseteq> version ` {p \<in> set pts. e \<le> date p}"
proof -
  obtain k where "slice_from (- n) (sort_key snd (versionsInWindow e pts)) =
      drop k (sort_key snd (versionsInWindow e pts))"
    using slice_from_drop by blast
  then have "set (topVersions e pts n) \<subseteq> fst ` set (sort_key snd (versionsInWindow e pts))"
    using set_drop_subset [of k "sort_key snd (versionsInWindow e pts)"]
    by (auto simp: topVersions_def)
  then show ?thesis by (simp add: versionsInWindow_keys)
qed

lemma topVersions_length: "0 < n \<Longrightarrow> length (topVersions e pts n) \<le> nat n"
  by (simp add: topVersions_def length_slice_from_neg)

lemma foldl_orderStep:
  "distinct acc \<Longrightarrow>
   distinct (foldl (orderStep t) acc pts) \<and>
   set (foldl (orderStep t) acc pts) = set acc \<union> (set t \<inter> version ` set pts)"
proof (induction pts arbitrary: acc)
  case Nil
  then show ?case by simp
next
  case (Cons p pts)
  have d: "distinct (orderStep t acc p)"
    using Cons.prems by (simp add: orderStep_def)
  have s: "set (orderStep t acc p) = set acc \<union> (set t \<inter> {version p})"
    by (auto simp: orderStep_def)
  show ?case using Cons.IH [OF d] s by auto
qed

lemma topVersionsInOrder_distinct: "distinct (topVersionsInOrder t pts)"
  using foldl_orderStep [of "[]" t pts] by (simp add: topVersionsInOrder_def)

lemma topVersionsInOrder_set: "set (topVersionsInOrder t pts) = set t \<inter> version ` set pts"
  using foldl_orderStep [of "[]" t pts] by (simp add: topVersionsInOrder_def)

lemma topVersionsInOrder_topVersions:
  "set (topVersionsInOrder (topVersions e pts n) pts) = set (topVersions e pts n)"
  using topVersions_subset [of e pts n] by (auto simp: topVersionsInOrder_set)

subsection \<open>The zero-filled result\<close>

lemma concat_map_if:
  "concat (map (\<lambda>d. if P d then [] else f d) ds) = concat (map f (filter (\<lambda>d. \<not> P d) ds))"
  by (induction ds) auto

lemma filterTopN_eq:
  assumes "pts \<noteq> []"
  shows "filterTopN dayStart pts n w =
     concat (map (\<lambda>d. map (zeroFillPoint
                            (pointsByDate (filteredPoints
                               (topVersions (earliestAllowableDate dayStart pts w) pts n) pts)) d)
                        (topVersionsInOrder (topVersions (earliestAllowableDate dayStart pts w) pts n) pts))
              (filter (\<lambda>d. \<not> d < earliestAllowableDate dayStart pts w)
                 (defaultSort (map fst (pointsByDate (filteredPoints
                    (topVersions (earliestAllowableDate dayStart pts w) pts n) pts))))))"
  using assms by (simp add: filterTopN_def Let_def pointsWithZero_def concat_map_if)

lemma length_filter_eq_distinct:
  "distinct vs \<Longrightarrow> length (filter (\<lambda>u. u = v) vs) = (if v \<in> set vs then 1 else 0)"
  by (induction vs) auto

lemma grid_row_count:
  assumes "distinct vs" and "\<And>u. date (g u) = d' \<and> version (g u) = u"
  shows "length (filter (\<lambda>q. date q = d \<and> version q = v) (map g vs)) =
           (if d' = d \<and> v \<in> set vs then 1 else 0)"
proof -
  have "filter (\<lambda>q. date q = d \<and> version q = v) (map g vs) =
          map g (filter (\<lambda>u. d' = d \<and> u = v) vs)"
    by (simp add: filter_map o_def assms(2))
  then show ?thesis
    using length_filter_eq_distinct [OF assms(1), of v] by (cases "d' = d") simp_all
qed

lemma grid_count:
  assumes "distinct ds" and "distinct vs"
    and "\<And>d' u. date (g d' u) = d' \<and> version (g d' u) = u"
  shows "length (filter (\<lambda>q. date q = d \<and> version q = v)
                   (concat (map (\<lambda>d'. map (g d') vs) ds))) =
           (if d \<in> set ds \<and> v \<in> set vs then 1 else 0)"
  using assms(1)
proof (induction ds)
  case Nil
  show ?case by simp
next
  case (Cons d' ds)
  have "length (filter (\<lambda>q. date q = d \<and> version q = v) (map (g d') vs)) =
           (if d' = d \<and> v \<in> set vs then 1 else 0)"
    by (rule grid_row_count [OF assms(2)]) (rule assms(3))
  then show ?case using Cons by auto
qed

lemma grid_set:
  assumes "\<And>d' u. date (g d' u) = d' \<and> version (g d' u) = u"
    and "p \<in> set (concat (map (\<lambda>d'. map (g d') vs) ds))"
  shows "date p \<in> set ds \<and> version p \<in> set vs"
  using assms by auto

subsection \<open>Evaluation on concrete inputs\<close>

lemmas filterTopN_eval =
  filterTopN_def earliestAllowableDate_def utcDayStart_def dayDuration_def
  topVersions_def versionsInWindow_def windowStep_def slice_from_def topVersionsInOrder_def
  orderStep_def filteredPoints_def pointsByDate_def groupStep_def defaultSort_def
  numberToString_def natToString.simps pointsWithZero_def zeroFillPoint_def Let_def

subsection \<open>The claims about filterTopN\<close>

lemma window_dates_mem:
  "x \<in> set (filter (\<lambda>d. \<not> d < e) (defaultSort (map fst (pointsByDate fp)))) \<longleftrightarrow>
     x \<in> date ` set fp \<and> e \<le> x"
  using pointsByDate_keys [of fp] by (auto simp: defaultSort_def)

lemma filterTopN_grid:
  assumes "pts \<noteq> []"
  shows "length (filter (\<lambda>q. date q = d \<and> version q = v) (filterTopN dayStart pts n w)) =
     (if (d \<in> date ` set (filteredPoints (topVersions (earliestAllowableDate dayStart pts w) pts n) pts) \<and>
         earliestAllowableDate dayStart pts w \<le> d) \<and>
         v \<in> set (topVersions (earliestAllowableDate dayStart pts w) pts n)
      then 1 else 0)"
proof -
  let ?e = "earliestAllowableDate dayStart pts w"
  let ?top = "topVersions ?e pts n"
  let ?pbd = "pointsByDate (filteredPoints ?top pts)"
  let ?ds = "filter (\<lambda>d. \<not> d < ?e) (defaultSort (map fst ?pbd))"
  let ?vs = "topVersionsInOrder ?top pts"
  have dds: "distinct ?ds"
    by (simp add: defaultSort_def pointsByDate_distinct)
  have "length (filter (\<lambda>q. date q = d \<and> version q = v)
                   (concat (map (\<lambda>d'. map (zeroFillPoint ?pbd d') ?vs) ?ds))) =
           (if d \<in> set ?ds \<and> v \<in> set ?vs then 1 else 0)"
    by (rule grid_count [OF dds topVersionsInOrder_distinct]) (rule zeroFillPoint_fields)
  then show ?thesis
    by (simp only: filterTopN_eq [OF assms] window_dates_mem topVersionsInOrder_topVersions)
qed

lemma filterTopN_member:
  assumes "p \<in> set (filterTopN dayStart pts n w)"
  shows "pts \<noteq> [] \<and>
         date p \<in> date ` set pts \<and>
         earliestAllowableDate dayStart pts w \<le> date p \<and>
         date p \<in> date ` set (filteredPoints (topVersions (earliestAllowableDate dayStart pts w) pts n) pts) \<and>
         version p \<in> set (topVersions (earliestAllowableDate dayStart pts w) pts n)"
proof -
  let ?e = "earliestAllowableDate dayStart pts w"
  let ?top = "topVersions ?e pts n"
  let ?pbd = "pointsByDate (filteredPoints ?top pts)"
  let ?ds = "filter (\<lambda>d. \<not> d < ?e) (defaultSort (map fst ?pbd))"
  let ?vs = "topVersionsInOrder ?top pts"
  have ne: "pts \<noteq> []" using assms by (auto simp: filterTopN_def)
  have "p \<in> set (concat (map (\<lambda>d'. map (zeroFillPoint ?pbd d') ?vs) ?ds))"
    using assms by (simp only: filterTopN_eq [OF ne])
  from grid_set [OF zeroFillPoint_fields this]
  have "date p \<in> set ?ds" and "version p \<in> set ?vs" by simp_all
  then have "date p \<in> date ` set (filteredPoints ?top pts)" and "?e \<le> date p"
    and v: "version p \<in> set ?top"
    by (simp_all only: window_dates_mem topVersionsInOrder_topVersions)
  moreover from this(1) have "date p \<in> date ` set pts"
    by (auto simp: filteredPoints_def)
  ultimately show ?thesis using ne by simp
qed

text \<open>
  Claim C6. Zero-fill completeness: for every date that occurs in the result of
  \<^verbatim>\<open>filterTopN\<close> and every kept version (every member of \<^verbatim>\<open>topVersions\<close>), the result holds
  exactly one point with that date and that version.
\<close>

theorem filterTopN_zero_fill_complete:
  assumes "p \<in> set (filterTopN dayStart pts n w)"
    and "v \<in> set (topVersions (earliestAllowableDate dayStart pts w) pts n)"
  shows "length (filter (\<lambda>q. date q = date p \<and> version q = v) (filterTopN dayStart pts n w)) = 1"
  using filterTopN_member [OF assms(1)] assms(2) by (simp add: filterTopN_grid)

theorem filterTopN_zero_fill_complete_witness:
  "\<lparr>date = 2, version = ''a'', count = 5\<rparr> \<in>
     set (filterTopN utcDayStart
       [\<lparr>date = 1, version = ''a'', count = 10\<rparr>, \<lparr>date = 1, version = ''b'', count = 30\<rparr>,
        \<lparr>date = 2, version = ''a'', count = 5\<rparr>] 2 30) \<and>
   ''b'' \<in> set (topVersions (earliestAllowableDate utcDayStart
       [\<lparr>date = 1, version = ''a'', count = 10\<rparr>, \<lparr>date = 1, version = ''b'', count = 30\<rparr>,
        \<lparr>date = 2, version = ''a'', count = 5\<rparr>] 30)
       [\<lparr>date = 1, version = ''a'', count = 10\<rparr>, \<lparr>date = 1, version = ''b'', count = 30\<rparr>,
        \<lparr>date = 2, version = ''a'', count = 5\<rparr>] 2) \<and>
   length (filter (\<lambda>q. date q = 2 \<and> version q = ''b'')
     (filterTopN utcDayStart
       [\<lparr>date = 1, version = ''a'', count = 10\<rparr>, \<lparr>date = 1, version = ''b'', count = 30\<rparr>,
        \<lparr>date = 2, version = ''a'', count = 5\<rparr>] 2 30)) = 1"
proof -
  let ?pts = "[\<lparr>date = 1, version = ''a'', count = 10\<rparr>, \<lparr>date = 1, version = ''b'', count = 30\<rparr>,
        \<lparr>date = 2, version = ''a'', count = 5 :: rat\<rparr>]"
  have out: "filterTopN utcDayStart ?pts 2 30 =
      [\<lparr>date = 1, version = ''a'', count = 10\<rparr>, \<lparr>date = 1, version = ''b'', count = 30\<rparr>,
       \<lparr>date = 2, version = ''a'', count = 5\<rparr>, \<lparr>date = 2, version = ''b'', count = 0\<rparr>]"
    by (simp add: filterTopN_eval)
  have h1: "\<lparr>date = 2, version = ''a'', count = 5\<rparr> \<in> set (filterTopN utcDayStart ?pts 2 30)"
    by (simp add: out)
  have h2: "''b'' \<in> set (topVersions (earliestAllowableDate utcDayStart ?pts 30) ?pts 2)"
    by (simp add: filterTopN_eval)
  from filterTopN_zero_fill_complete [OF h1 h2] h1 h2 show ?thesis by simp
qed

lemma sorted_le_last: "sorted xs \<Longrightarrow> (x::int) \<in> set xs \<Longrightarrow> x \<le> last xs"
  by (induction xs) auto

text \<open>
  Claim C7. For a non-empty point list in ascending order of date and a positive \<open>n\<close>, the
  result of \<^verbatim>\<open>filterTopN\<close> mentions at most \<open>n\<close> distinct versions, and the date of each of
  its points lies between \<^verbatim>\<open>earliestAllowableDate\<close> (the start of the local day of the last
  point, minus the window) and the date of the last point. The window may be any number
  of days.
\<close>

theorem filterTopN_bounds:
  assumes "pts \<noteq> []" and "sorted (map date pts)" and "0 < n"
  shows "card (version ` set (filterTopN dayStart pts n w)) \<le> nat n \<and>
         (\<forall>p \<in> set (filterTopN dayStart pts n w).
            earliestAllowableDate dayStart pts w \<le> date p \<and> date p \<le> date (last pts))"
proof
  let ?top = "topVersions (earliestAllowableDate dayStart pts w) pts n"
  have "version ` set (filterTopN dayStart pts n w) \<subseteq> set ?top"
    using filterTopN_member by blast
  then have "card (version ` set (filterTopN dayStart pts n w)) \<le> card (set ?top)"
    by (simp add: card_mono)
  also have "\<dots> \<le> length ?top" by (rule card_length)
  also have "\<dots> \<le> nat n" by (rule topVersions_length [OF assms(3)])
  finally show "card (version ` set (filterTopN dayStart pts n w)) \<le> nat n" .
next
  show "\<forall>p \<in> set (filterTopN dayStart pts n w).
            earliestAllowableDate dayStart pts w \<le> date p \<and> date p \<le> date (last pts)"
  proof
    fix p assume "p \<in> set (filterTopN dayStart pts n w)"
    from filterTopN_member [OF this]
    have e: "earliestAllowableDate dayStart pts w \<le> date p" and "date p \<in> set (map date pts)"
      by simp_all
    from sorted_le_last [OF assms(2) this(2)] have "date p \<le> date (last pts)"
      using assms(1) by (simp add: last_map)
    with e show "earliestAllowableDate dayStart pts w \<le> date p \<and> date p \<le> date (last pts)"
      by simp
  qed
qed

theorem filterTopN_bounds_witness:
  "[\<lparr>date = 1, version = ''a'', count = 10 :: rat\<rparr>, \<lparr>date = 1, version = ''b'', count = 30\<rparr>,
    \<lparr>date = 2, version = ''b'', count = 50\<rparr>] \<noteq> [] \<and>
   sorted (map date [\<lparr>date = 1, version = ''a'', count = 10 :: rat\<rparr>,
     \<lparr>date = 1, version = ''b'', count = 30\<rparr>, \<lparr>date = 2, version = ''b'', count = 50\<rparr>]) \<and>
   (0::int) < 1 \<and>
   filterTopN utcDayStart
     [\<lparr>date = 1, version = ''a'', count = 10\<rparr>, \<lparr>date = 1, version = ''b'', count = 30\<rparr>,
      \<lparr>date = 2, version = ''b'', count = 50\<rparr>] 1 30 =
     [\<lparr>date = 1, version = ''b'', count = 30\<rparr>, \<lparr>date = 2, version = ''b'', count = 50\<rparr>] \<and>
   card (version ` set (filterTopN utcDayStart
     [\<lparr>date = 1, version = ''a'', count = 10\<rparr>, \<lparr>date = 1, version = ''b'', count = 30\<rparr>,
      \<lparr>date = 2, version = ''b'', count = 50\<rparr>] 1 30)) \<le> nat 1 \<and>
   earliestAllowableDate utcDayStart
     [\<lparr>date = 1, version = ''a'', count = 10\<rparr>, \<lparr>date = 1, version = ''b'', count = 30\<rparr>,
      \<lparr>date = 2, version = ''b'', count = 50\<rparr>] 30 \<le>
     date (last (filterTopN utcDayStart
       [\<lparr>date = 1, version = ''a'', count = 10\<rparr>, \<lparr>date = 1, version = ''b'', count = 30\<rparr>,
        \<lparr>date = 2, version = ''b'', count = 50\<rparr>] 1 30))"
proof -
  let ?pts = "[\<lparr>date = 1, version = ''a'', count = 10\<rparr>, \<lparr>date = 1, version = ''b'', count = 30\<rparr>,
        \<lparr>date = 2, version = ''b'', count = 50 :: rat\<rparr>]"
  have out: "filterTopN utcDayStart ?pts 1 30 =
      [\<lparr>date = 1, version = ''b'', count = 30\<rparr>, \<lparr>date = 2, version = ''b'', count = 50\<rparr>]"
    by (simp add: filterTopN_eval)
  have m: "last (filterTopN utcDayStart ?pts 1 30) \<in> set (filterTopN utcDayStart ?pts 1 30)"
    by (simp add: out)
  have h1: "?pts \<noteq> []" by simp
  have h2: "sorted (map date ?pts)" by simp
  have h3: "(0::int) < 1" by simp
  note b = filterTopN_bounds [OF h1 h2 h3, of utcDayStart 30]
  from b have c: "card (version ` set (filterTopN utcDayStart ?pts 1 30)) \<le> nat 1" ..
  from b m have "earliestAllowableDate utcDayStart ?pts 30 \<le>
      date (last (filterTopN utcDayStart ?pts 1 30))"
    by blast
  then show ?thesis using out c h1 h2 h3 by blast
qed

lemma topVersions_nonpositive:
  "n \<le> 0 \<Longrightarrow> topVersions e pts n = drop (nat (- n)) (map fst (sort_key snd (versionsInWindow e pts)))"
  by (simp add: topVersions_def slice_from_nonneg drop_map)

lemma topVersions_zero_set:
  "set (topVersions e pts 0) = version ` {p \<in> set pts. e \<le> date p}"
  using versionsInWindow_keys [of e pts] by (simp add: topVersions_nonpositive)

text \<open>
  Claim C3, as the code has it. With \<open>n \<le> 0\<close> the argument of \<^verbatim>\<open>slice\<close> is \<open>- n \<ge> 0\<close>, so
  the kept versions are the ranking of the window without its first \<open>- n\<close> entries, the
  lowest totals. With \<open>n = 0\<close> every version that has a point in the window is kept, and
  the result is not empty when the input is not empty, the window is not negative and the
  start of the day of the last point is not after that point.
\<close>

theorem filterTopN_nonpositive:
  assumes "n \<le> 0"
  shows "topVersions (earliestAllowableDate dayStart pts w) pts n =
           drop (nat (- n))
             (map fst (sort_key snd (versionsInWindow (earliestAllowableDate dayStart pts w) pts))) \<and>
         (n = 0 \<longrightarrow>
            set (topVersions (earliestAllowableDate dayStart pts w) pts n) =
              version ` {p \<in> set pts. earliestAllowableDate dayStart pts w \<le> date p}) \<and>
         (n = 0 \<and> pts \<noteq> [] \<and> dayStart (date (last pts)) \<le> date (last pts) \<and> 0 \<le> w \<longrightarrow>
            filterTopN dayStart pts n w \<noteq> [])"
proof (intro conjI impI)
  show "topVersions (earliestAllowableDate dayStart pts w) pts n =
           drop (nat (- n))
             (map fst (sort_key snd (versionsInWindow (earliestAllowableDate dayStart pts w) pts)))"
    by (rule topVersions_nonpositive [OF assms])
next
  assume "n = 0"
  then show "set (topVersions (earliestAllowableDate dayStart pts w) pts n) =
              version ` {p \<in> set pts. earliestAllowableDate dayStart pts w \<le> date p}"
    by (simp add: topVersions_zero_set)
next
  let ?e = "earliestAllowableDate dayStart pts w"
  assume a: "n = 0 \<and> pts \<noteq> [] \<and> dayStart (date (last pts)) \<le> date (last pts) \<and> 0 \<le> w"
  then have ne: "pts \<noteq> []" and n: "n = 0" by simp_all
  have "0 \<le> w * 24 * 60 * 60 * 1000" using a by simp
  then have inwin: "?e \<le> date (last pts)"
    using a unfolding earliestAllowableDate_def by linarith
  have lastin: "last pts \<in> set pts" using ne by simp
  then have v: "version (last pts) \<in> set (topVersions ?e pts 0)"
    using inwin by (auto simp: topVersions_zero_set)
  then have "date (last pts) \<in> date ` set (filteredPoints (topVersions ?e pts 0) pts)"
    using lastin by (auto simp: filteredPoints_def)
  then have "length (filter (\<lambda>q. date q = date (last pts) \<and> version q = version (last pts))
                (filterTopN dayStart pts 0 w)) = 1"
    using v inwin by (simp add: filterTopN_grid [OF ne])
  then show "filterTopN dayStart pts n w \<noteq> []"
    using n by auto
qed

text \<open>
  Two versions on one date. With \<open>n = 0\<close> both are kept and the result is the input; with
  \<open>n = - 1\<close> the version with the lower total is dropped and the other is kept.
\<close>

theorem filterTopN_nonpositive_counterexample:
  "filterTopN utcDayStart
     [\<lparr>date = 1, version = ''a'', count = 10\<rparr>, \<lparr>date = 1, version = ''b'', count = 30\<rparr>] 0 30 =
     [\<lparr>date = 1, version = ''a'', count = 10\<rparr>, \<lparr>date = 1, version = ''b'', count = 30\<rparr>] \<and>
   filterTopN utcDayStart
     [\<lparr>date = 1, version = ''a'', count = 10\<rparr>, \<lparr>date = 1, version = ''b'', count = 30\<rparr>] (- 1) 30 =
     [\<lparr>date = 1, version = ''b'', count = 30\<rparr>]"
  by (simp add: filterTopN_eval)

theorem filterTopN_nonpositive_witness:
  "(0::int) \<le> 0 \<and>
   [\<lparr>date = 1, version = ''a'', count = 10 :: rat\<rparr>, \<lparr>date = 1, version = ''b'', count = 30\<rparr>] \<noteq> [] \<and>
   utcDayStart (date (last [\<lparr>date = 1, version = ''a'', count = 10 :: rat\<rparr>,
      \<lparr>date = 1, version = ''b'', count = 30\<rparr>])) \<le> 1 \<and>
   (0::int) \<le> 30 \<and>
   filterTopN utcDayStart
     [\<lparr>date = 1, version = ''a'', count = 10\<rparr>, \<lparr>date = 1, version = ''b'', count = 30\<rparr>] 0 30 \<noteq> []"
proof -
  let ?pts = "[\<lparr>date = 1, version = ''a'', count = 10 :: rat\<rparr>, \<lparr>date = 1, version = ''b'', count = 30\<rparr>]"
  have h: "utcDayStart (date (last ?pts)) \<le> date (last ?pts)"
    by (simp add: utcDayStart_def dayDuration_def)
  have "filterTopN utcDayStart ?pts 0 30 \<noteq> []"
    using filterTopN_nonpositive [of 0 utcDayStart ?pts 30] h by simp
  then show ?thesis using h by simp
qed

text \<open>
  Claim C4 at an input where the code departs from it. \<^verbatim>\<open>datesAscending\<close> is the result of
  \<^verbatim>\<open>sort()\<close> with no comparator, which orders numbers by their decimal strings. Two
  timestamps one millisecond apart, the first with twelve digits and the second with
  thirteen, come out with the later date first.
\<close>

theorem filterTopN_dates_not_ascending:
  "filterTopN utcDayStart
     [\<lparr>date = 999999999999, version = ''a'', count = 1\<rparr>,
      \<lparr>date = 1000000000000, version = ''a'', count = 2\<rparr>] 1 30 =
     [\<lparr>date = 1000000000000, version = ''a'', count = 2\<rparr>,
      \<lparr>date = 999999999999, version = ''a'', count = 1\<rparr>]"
  by (simp add: filterTopN_eval)

section \<open>Properties of the chart rows\<close>

lemma rowCount_Nil: "rowCount [] d v = None"
  by (simp add: rowCount_def)

lemma rowCount_Cons:
  "rowCount (r # rows) d v = (if row_date r = d then versionCounts r v else rowCount rows d v)"
  by (simp add: rowCount_def)

lemma rowCount_upsert_other:
  "v' \<noteq> v \<Longrightarrow> rowCount (upsertRow rows d v c) d' v' = rowCount rows d' v'"
  by (induction rows) (auto simp: rowCount_Cons rowCount_Nil assignCount_def)

lemma rowCount_upsert_same:
  "v \<noteq> ''__proto__'' \<Longrightarrow>
   rowCount (upsertRow rows d v c) d' v = (if d' = d then Some c else rowCount rows d' v)"
  by (induction rows) (auto simp: rowCount_Cons rowCount_Nil assignCount_def)

lemma rowCount_rowStep_other:
  "v' \<noteq> v \<Longrightarrow> rowCount (rowStep v rows p) d' v' = rowCount rows d' v'"
  by (simp add: rowStep_def rowCount_upsert_other)

lemma rowCount_inner_other:
  "v' \<noteq> v \<Longrightarrow> rowCount (foldl (rowStep v) rows pts) d' v' = rowCount rows d' v'"
  by (induction pts arbitrary: rows) (simp_all add: rowCount_rowStep_other)

lemma rowCount_inner_same:
  assumes "v \<noteq> ''__proto__''"
  shows "rowCount (foldl (rowStep v) rows pts) d v =
     (if filter (\<lambda>p. version p = v \<and> date p = d) pts = [] then rowCount rows d v
      else Some (count (last (filter (\<lambda>p. version p = v \<and> date p = d) pts))))"
proof (induction pts rule: rev_induct)
  case Nil
  show ?case by simp
next
  case (snoc p pts)
  show ?case
    using snoc.IH assms by (simp add: rowStep_def rowCount_upsert_same)
qed

lemma rowCount_outer:
  assumes "v \<noteq> ''__proto__''" and "filter (\<lambda>p. version p = v \<and> date p = d) pts \<noteq> []"
  shows "v \<in> set vs \<Longrightarrow>
     rowCount (foldl (\<lambda>data u. foldl (rowStep u) data pts) rows vs) d v =
       Some (count (last (filter (\<lambda>p. version p = v \<and> date p = d) pts)))"
proof (induction vs rule: rev_induct)
  case Nil
  then show ?case by simp
next
  case (snoc u vs)
  show ?case
  proof (cases "u = v")
    case True
    then show ?thesis using assms by (simp add: rowCount_inner_same)
  next
    case False
    then have "v \<in> set vs" using snoc.prems by simp
    then show ?thesis using False snoc.IH by (simp add: rowCount_inner_other)
  qed
qed

lemma set_foldl_set_add: "set (foldl set_add acc xs) = set acc \<union> set xs"
  by (induction xs arbitrary: acc) (auto simp: set_add_def)

lemma set_allVersionsArr: "set (allVersionsArr pts) = version ` set pts"
  by (simp add: allVersionsArr_def set_foldl_set_add)

lemma distinct_foldl_set_add: "distinct acc \<Longrightarrow> distinct (foldl set_add acc xs)"
  by (induction xs arbitrary: acc) (auto simp: set_add_def)

lemma row_dates_upsertRow:
  "map row_date (upsertRow rows d v c) =
     (if d \<in> row_date ` set rows then map row_date rows else map row_date rows @ [d])"
  by (induction rows) auto

lemma distinct_rowStep:
  "distinct (map row_date rows) \<Longrightarrow> distinct (map row_date (rowStep v rows p))"
  by (simp add: rowStep_def row_dates_upsertRow)

lemma distinct_inner:
  "distinct (map row_date rows) \<Longrightarrow> distinct (map row_date (foldl (rowStep v) rows pts))"
  by (induction pts arbitrary: rows) (simp_all add: distinct_rowStep)

lemma distinct_outer:
  "distinct (map row_date rows) \<Longrightarrow>
   distinct (map row_date (foldl (\<lambda>data u. foldl (rowStep u) data pts) rows vs))"
  by (induction vs arbitrary: rows) (simp_all add: distinct_inner)

lemma chartData_distinct: "distinct (map row_date (chartData pts))"
  by (simp add: chartData_def distinct_outer)

lemma rowCount_unique:
  "distinct (map row_date rows) \<Longrightarrow> r \<in> set rows \<Longrightarrow> rowCount rows (row_date r) v = versionCounts r v"
  by (induction rows) (auto simp: rowCount_Cons)

lemma rowCount_Some_row:
  "rowCount rows d v = Some c \<Longrightarrow> \<exists>r \<in> set rows. row_date r = d \<and> versionCounts r v = Some c"
  by (induction rows) (auto simp: rowCount_Cons rowCount_Nil split: if_splits)

lemma chartData_rowCount:
  assumes "p \<in> set pts" and "version p \<noteq> ''__proto__''"
  shows "rowCount (chartData pts) (date p) (version p) =
           Some (count (last (filter (\<lambda>q. version q = version p \<and> date q = date p) pts)))"
proof -
  have "filter (\<lambda>q. version q = version p \<and> date q = date p) pts \<noteq> []"
    using assms(1) by (auto simp: filter_empty_conv)
  moreover have "version p \<in> set (allVersionsArr pts)"
    using assms(1) by (simp add: set_allVersionsArr)
  ultimately show ?thesis
    unfolding chartData_def by (intro rowCount_outer [OF assms(2)])
qed

text \<open>
  Claim C8, as the code has it. Take an input point whose version is not the key
  \<^verbatim>\<open>__proto__\<close> and such that every input point with the same date and the same version
  has the same count. Then the rows hold a row with the date of the point, and every row
  with that date maps the version of the point to its count.
\<close>

theorem chartData_round_trip:
  assumes "p \<in> set pts" and "version p \<noteq> ''__proto__''"
    and "\<forall>q \<in> set pts. date q = date p \<and> version q = version p \<longrightarrow> count q = count p"
  shows "(\<exists>r \<in> set (chartData pts). row_date r = date p) \<and>
         (\<forall>r \<in> set (chartData pts).
            row_date r = date p \<longrightarrow> versionCounts r (version p) = Some (count p))"
proof -
  let ?ms = "filter (\<lambda>q. version q = version p \<and> date q = date p) pts"
  have "?ms \<noteq> []" using assms(1) by (auto simp: filter_empty_conv)
  then have "last ?ms \<in> set ?ms" by (rule last_in_set)
  then have "count (last ?ms) = count p" using assms(3) by simp
  then have rc: "rowCount (chartData pts) (date p) (version p) = Some (count p)"
    using chartData_rowCount [OF assms(1,2)] by simp
  from rowCount_Some_row [OF rc] have ex: "\<exists>r \<in> set (chartData pts). row_date r = date p"
    by blast
  have "\<forall>r \<in> set (chartData pts).
            row_date r = date p \<longrightarrow> versionCounts r (version p) = Some (count p)"
  proof (intro ballI impI)
    fix r assume "r \<in> set (chartData pts)" and d: "row_date r = date p"
    from rowCount_unique [OF chartData_distinct this(1), of "version p"] rc d
    show "versionCounts r (version p) = Some (count p)" by simp
  qed
  with ex show ?thesis by simp
qed

text \<open>
  Two points with the same date and version and different counts: the later count
  overwrites the earlier, and no row holds the earlier one. And a point with the version
  \<^verbatim>\<open>__proto__\<close> whose date already has a row: the assignment defines no property.
\<close>

theorem chartData_round_trip_counterexample:
  "\<not> (\<exists>r \<in> set (chartData [\<lparr>date = 1, version = ''a'', count = 1 :: rat\<rparr>,
                             \<lparr>date = 1, version = ''a'', count = 2\<rparr>]).
        row_date r = 1 \<and> versionCounts r ''a'' = Some 1) \<and>
   \<not> (\<exists>r \<in> set (chartData [\<lparr>date = 1, version = ''a'', count = 1 :: rat\<rparr>,
                             \<lparr>date = 1, version = ''__proto__'', count = 2\<rparr>]).
        row_date r = 1 \<and> versionCounts r ''__proto__'' = Some 2)"
  by (simp add: chartData_def allVersionsArr_def set_add_def rowStep_def assignCount_def)

theorem chartData_round_trip_witness:
  "\<lparr>date = 2, version = ''a'', count = 5 :: rat\<rparr> \<in>
      set [\<lparr>date = 1, version = ''a'', count = 1\<rparr>, \<lparr>date = 2, version = ''a'', count = 5\<rparr>] \<and>
   ''a'' \<noteq> ''__proto__'' \<and>
   row_date (chartData [\<lparr>date = 1, version = ''a'', count = 1 :: rat\<rparr>,
                        \<lparr>date = 2, version = ''a'', count = 5\<rparr>] ! 1) = 2 \<and>
   versionCounts (chartData [\<lparr>date = 1, version = ''a'', count = 1 :: rat\<rparr>,
                             \<lparr>date = 2, version = ''a'', count = 5\<rparr>] ! 1) ''a'' = Some 5"
proof -
  let ?pts = "[\<lparr>date = 1, version = ''a'', count = 1 :: rat\<rparr>, \<lparr>date = 2, version = ''a'', count = 5\<rparr>]"
  have m: "chartData ?pts ! 1 \<in> set (chartData ?pts)"
    by (simp add: chartData_def allVersionsArr_def set_add_def rowStep_def assignCount_def)
  have d: "row_date (chartData ?pts ! 1) = 2"
    by (simp add: chartData_def allVersionsArr_def set_add_def rowStep_def assignCount_def)
  from chartData_round_trip [of "\<lparr>date = 2, version = ''a'', count = 5 :: rat\<rparr>" ?pts]
  have "\<forall>r \<in> set (chartData ?pts). row_date r = 2 \<longrightarrow> versionCounts r ''a'' = Some 5"
    by simp
  with m d have "versionCounts (chartData ?pts ! 1) ''a'' = Some 5" by blast
  with d show ?thesis by simp
qed

end
